theory Spec2Isabelle
  imports Main "HOL-Library.AList" "HOL-Library.Sublist" "HOL-Library.Multiset"
begin

section \<open>Python values and the operations the programs use on them\<close>

text \<open>
  The programs work on decoded JSON: what \<^verbatim>\<open>request.json()\<close> and \<^verbatim>\<open>json.loads\<close> return.
  A dict is an association list read with \<^const>\<open>map_of\<close> and written with
  \<^const>\<open>AList.update\<close>, which replaces a key in place and puts a new key last, as a Python
  dict does. Numbers are integers (the counts and page numbers of the programs).
\<close>

datatype json =
    JNull
  | JBool bool
  | JInt int
  | JStr string
  | JList "json list"
  | JDict "(string \<times> json) list"

datatype error =
    KeyError
  | IndexError
  | TypeError
  | ValueError
  | AttributeError
  | OverflowError
  | JSONDecodeError
  | FileNotFoundError
  | ConnectionError

text \<open>\<^verbatim>\<open>sub in s\<close> on two strings.\<close>

fun contains_str :: "string \<Rightarrow> string \<Rightarrow> bool" where
  "contains_str sub [] = (sub = [])"
| "contains_str sub (c # cs) = (prefix sub (c # cs) \<or> contains_str sub cs)"

text \<open>\<^verbatim>\<open>key in x\<close> for a string \<open>key\<close>.\<close>

fun py_contains :: "string \<Rightarrow> json \<Rightarrow> error + bool" where
  "py_contains k (JDict kvs) = Inr (map_of kvs k \<noteq> None)"
| "py_contains k (JList xs) = Inr (JStr k \<in> set xs)"
| "py_contains k (JStr s) = Inr (contains_str k s)"
| "py_contains k _ = Inl TypeError"

text \<open>\<^verbatim>\<open>x[key]\<close> for a string \<open>key\<close>.\<close>

fun py_getitem :: "json \<Rightarrow> string \<Rightarrow> error + json" where
  "py_getitem (JDict kvs) k = (case map_of kvs k of None \<Rightarrow> Inl KeyError | Some v \<Rightarrow> Inr v)"
| "py_getitem _ k = Inl TypeError"

text \<open>\<^verbatim>\<open>x[key] = v\<close> for a string \<open>key\<close>.\<close>

fun py_setitem :: "json \<Rightarrow> string \<Rightarrow> json \<Rightarrow> error + json" where
  "py_setitem (JDict kvs) k v = Inr (JDict (AList.update k v kvs))"
| "py_setitem _ k v = Inl TypeError"

text \<open>\<^verbatim>\<open>x[-1]\<close>.\<close>

fun py_last :: "json \<Rightarrow> error + json" where
  "py_last (JList xs) = (if xs = [] then Inl IndexError else Inr (last xs))"
| "py_last (JStr s) = (if s = [] then Inl IndexError else Inr (JStr [last s]))"
| "py_last (JDict kvs) = Inl KeyError"
| "py_last _ = Inl TypeError"

text \<open>The elements \<^verbatim>\<open>for e in x\<close> visits.\<close>

fun py_iter :: "json \<Rightarrow> error + json list" where
  "py_iter (JList xs) = Inr xs"
| "py_iter (JStr s) = Inr (map (\<lambda>c. JStr [c]) s)"
| "py_iter (JDict kvs) = Inr (map (\<lambda>kv. JStr (fst kv)) kvs)"
| "py_iter _ = Inl TypeError"

text \<open>\<^verbatim>\<open>x.append(v)\<close> and \<^verbatim>\<open>x.extend(y)\<close>: only a list has these methods.\<close>

fun py_append :: "json \<Rightarrow> json \<Rightarrow> error + json" where
  "py_append (JList xs) v = Inr (JList (xs @ [v]))"
| "py_append _ v = Inl AttributeError"

fun py_extend :: "json \<Rightarrow> json \<Rightarrow> error + json" where
  "py_extend (JList xs) y = (case py_iter y of Inl e \<Rightarrow> Inl e | Inr ys \<Rightarrow> Inr (JList (xs @ ys)))"
| "py_extend _ y = Inl AttributeError"

text \<open>\<^verbatim>\<open>n += x\<close> for an integer \<open>n\<close>: a bool counts as 0 or 1.\<close>

fun py_add :: "int \<Rightarrow> json \<Rightarrow> error + int" where
  "py_add n (JInt m) = Inr (n + m)"
| "py_add n (JBool b) = Inr (n + (if b then 1 else 0))"
| "py_add n _ = Inl TypeError"

subsection \<open>Text and numbers\<close>

text \<open>\<^verbatim>\<open>str(n)\<close> in decimal.\<close>

fun str_nat :: "nat \<Rightarrow> string" where
  "str_nat n = (if n < 10 then [char_of (48 + n)] else str_nat (n div 10) @ [char_of (48 + n mod 10)])"

declare str_nat.simps [simp del]

definition str_int :: "int \<Rightarrow> string" where
  "str_int i = (if i < 0 then CHR ''-'' # str_nat (nat (- i)) else str_nat (nat i))"

text \<open>
  \<^verbatim>\<open>int(s)\<close> on text whose characters are code points below 256, as header text is:
  surrounding white space is dropped (tab to carriage return, the space, and the two
  spaces beyond ASCII, U+0085 and U+00A0; the separators 0x1C to 0x1F are not white space
  here), a sign may lead, and the digits may be grouped by single underscores. More than
  4300 digits, or anything else, is a ValueError.
\<close>

definition digit_of :: "char \<Rightarrow> nat option" where
  "digit_of c = (let n = (of_char c :: nat) in if 48 \<le> n \<and> n \<le> 57 then Some (n - 48) else None)"

definition is_space :: "char \<Rightarrow> bool" where
  "is_space c = (let n = (of_char c :: nat) in n = 32 \<or> (9 \<le> n \<and> n \<le> 13) \<or> n = 133 \<or> n = 160)"

definition strip :: "string \<Rightarrow> string" where
  "strip s = rev (dropWhile is_space (rev (dropWhile is_space s)))"

fun py_digits :: "nat \<Rightarrow> string \<Rightarrow> nat option" where
  "py_digits acc [] = Some acc"
| "py_digits acc [c] = (case digit_of c of None \<Rightarrow> None | Some d \<Rightarrow> Some (acc * 10 + d))"
| "py_digits acc (c # c' # cs) =
     (if c = CHR ''_''
      then (case digit_of c' of None \<Rightarrow> None | Some d \<Rightarrow> py_digits (acc * 10 + d) cs)
      else (case digit_of c of None \<Rightarrow> None | Some d \<Rightarrow> py_digits (acc * 10 + d) (c' # cs)))"

definition py_nat :: "string \<Rightarrow> nat option" where
  "py_nat s =
     (if 4300 < length (filter (\<lambda>c. c \<noteq> CHR ''_'') s) then None
      else (case s of [] \<Rightarrow> None
            | c # cs \<Rightarrow> (case digit_of c of None \<Rightarrow> None | Some d \<Rightarrow> py_digits d cs)))"

definition py_int :: "string \<Rightarrow> error + int" where
  "py_int s =
     (let t = strip s;
          r = (case t of [] \<Rightarrow> None
               | c # cs \<Rightarrow>
                   if c = CHR ''-'' then map_option (\<lambda>n. - int n) (py_nat cs)
                   else if c = CHR ''+'' then map_option int (py_nat cs)
                   else map_option int (py_nat t))
      in case r of None \<Rightarrow> Inl ValueError | Some i \<Rightarrow> Inr i)"

text \<open>\<^verbatim>\<open>s.split(sep)\<close>: an empty separator is a ValueError.\<close>

function split_from :: "string \<Rightarrow> string \<Rightarrow> string \<Rightarrow> string list" where
  "split_from sep cur [] = [rev cur]"
| "split_from sep cur (c # cs) =
     (if sep \<noteq> [] \<and> prefix sep (c # cs)
      then rev cur # split_from sep [] (drop (length sep - 1) cs)
      else split_from sep (c # cur) cs)"
  by pat_completeness auto
termination
  by (relation "measure (\<lambda>(sep, cur, s). length s)") auto

definition py_split :: "string \<Rightarrow> string \<Rightarrow> error + string list" where
  "py_split sep s = (if sep = [] then Inl ValueError else Inr (split_from sep [] s))"

text \<open>
  \<^verbatim>\<open>time.ctime(secs)\<close> takes a number of seconds (or nothing at all). The program hands it
  the text of a response header, and on a \<^verbatim>\<open>str\<close> the call raises TypeError.
\<close>

definition time_ctime_str :: "string \<Rightarrow> error + string" where
  "time_ctime_str secs = Inl TypeError"

subsection \<open>Instants and durations\<close>

text \<open>
  A \<^verbatim>\<open>datetime\<close> is the number of microseconds since \<^verbatim>\<open>datetime.min\<close>
  (0001-01-01T00:00:00), a \<^verbatim>\<open>timedelta\<close> a number of microseconds. A timedelta holds at
  most 999999999 days either way; a sum beyond \<^verbatim>\<open>datetime.max\<close>
  (9999-12-31T23:59:59.999999) or before \<^verbatim>\<open>datetime.min\<close> is an OverflowError.
\<close>

definition week_us :: int where
  "week_us = 7 * 24 * 3600 * 1000000"

definition datetime_max :: int where
  "datetime_max = 3652059 * 24 * 3600 * 1000000 - 1"

definition timedelta_weeks :: "int \<Rightarrow> error + int" where
  "timedelta_weeks weeks =
     (if \<bar>weeks * 7\<bar> \<le> 999999999 then Inr (weeks * week_us) else Inl OverflowError)"

definition datetime_add :: "int \<Rightarrow> int \<Rightarrow> error + int" where
  "datetime_add t d = (if 0 \<le> t + d \<and> t + d \<le> datetime_max then Inr (t + d) else Inl OverflowError)"

section \<open>The world the programs act on\<close>

text \<open>
  What a run can change or observe: the lines printed through \<^verbatim>\<open>utils.logPrint\<close>, the URLs
  fetched with \<^verbatim>\<open>requests.get\<close> (in order), how often the clock was read, and the
  document held by the file \<^verbatim>\<open>userReposTraffic.json\<close> (\<open>None\<close> while the file does not
  exist). Every operation returns the world it leaves behind, also when it raises.
\<close>

datatype logmsg = Text string | Data json

record world =
  logged :: "(logmsg \<times> string option) list"
  requested :: "string list"
  clock_reads :: nat
  ledger_file :: "json option"

text \<open>
  Modelled from the spec: \<^verbatim>\<open>utils.logPrint\<close> is not among the sources. The spec has it emit a
  message at a level (error, warning, ...); here it appends the message and the level it was
  given, \<open>None\<close> when the call names no level.
\<close>

definition logPrint :: "logmsg \<Rightarrow> string option \<Rightarrow> world \<Rightarrow> world" where
  "logPrint msg level w = w\<lparr>logged := logged w @ [(msg, level)]\<rparr>"

text \<open>\<^verbatim>\<open>datetime.datetime.now()\<close>: the \<open>k\<close>-th reading of the clock is \<open>clock k\<close>.\<close>

definition datetime_now :: "(nat \<Rightarrow> int) \<Rightarrow> world \<Rightarrow> int \<times> world" where
  "datetime_now clock w = (clock (clock_reads w), w\<lparr>clock_reads := Suc (clock_reads w)\<rparr>)"

text \<open>
  An HTTP response as the program reads it: the two rate-limit headers (text, as every
  header is), the decoded body (\<open>None\<close> when it is not JSON) and the URL of the
  \<^verbatim>\<open>last\<close> link (\<^verbatim>\<open>request.links['last']['url']\<close>, when there is one). The remote service
  is a function from the URL to the response, or to the error \<^verbatim>\<open>requests.get\<close> raises.
\<close>

record response =
  rate_remaining :: "string option"
  rate_reset :: "string option"
  body :: "json option"
  last_url :: "string option"

type_synonym server = "string \<Rightarrow> error + response"

section \<open>lib/githubREST.py\<close>

text \<open>
  What \<^verbatim>\<open>getGithubApiRequest\<close> hands back: the decoded body, or the response itself when
  \<^verbatim>\<open>jsonOnly\<close> is false.
\<close>

datatype apiresult = Json json | Request response

text \<open>Lines 14 to 16 of \<^verbatim>\<open>getGithubApiRequest\<close>: the rate-limit message.\<close>

definition rateLimitNotice :: "response \<Rightarrow> world \<Rightarrow> (error + unit) \<times> world" where
  "rateLimitNotice request w =
     (case rate_reset request of
        None \<Rightarrow> (Inl KeyError, w)
      | Some reset \<Rightarrow>
          (case time_ctime_str reset of
             Inl e \<Rightarrow> (Inl e, w)
           | Inr t \<Rightarrow>
               (Inr (), logPrint (Text (''Remaining rate limit is zero. Try again at '' @ t))
                                 (Some ''error'') w)))"

definition getGithubApiRequest ::
  "server \<Rightarrow> string \<Rightarrow> bool \<Rightarrow> world \<Rightarrow> (error + apiresult) \<times> world" where
  "getGithubApiRequest srv urlExcBase jsonOnly w =
     (let fullUrl = ''https://api.github.com/'' @ urlExcBase;
          w1 = w\<lparr>requested := requested w @ [fullUrl]\<rparr>
      in case srv fullUrl of
           Inl e \<Rightarrow> (Inl e, w1)
         | Inr request \<Rightarrow>
      (case rate_remaining request of
           None \<Rightarrow> (Inl KeyError, w1)
         | Some remaining \<Rightarrow>
      (case py_int remaining of
           Inl e \<Rightarrow> (Inl e, w1)
         | Inr n \<Rightarrow>
      (case (if n < 1 then rateLimitNotice request w1 else (Inr (), w1)) of
           (Inl e, w2) \<Rightarrow> (Inl e, w2)
         | (Inr u, w2) \<Rightarrow>
      (case body request of
           None \<Rightarrow> (Inl JSONDecodeError, w2)
         | Some requestJson \<Rightarrow>
      (case py_contains ''message'' requestJson of
           Inl e \<Rightarrow> (Inl e, w2)
         | Inr hasMessage \<Rightarrow>
             (Inr (if jsonOnly then Json requestJson else Request request),
              if hasMessage
              then logPrint (Data requestJson) None
                     (logPrint (Text (''Some error has occurred for '' @ fullUrl)) (Some ''error'') w2)
              else w2)))))))"

text \<open>
  \<^verbatim>\<open>getPaginatedGithubApiRequest\<close>, lines 69 to 72: the number after \<^verbatim>\<open>&page=\<close> in the
  \<^verbatim>\<open>last\<close> link; whatever goes wrong on the way (no such link, no such separator, no
  number) leaves one page.
\<close>

definition parseLastPage :: "apiresult \<Rightarrow> int" where
  "parseLastPage firstPage =
     (case firstPage of
        Json j \<Rightarrow> 1
      | Request r \<Rightarrow>
          (case last_url r of
             None \<Rightarrow> 1
           | Some url \<Rightarrow>
               (case py_split ''&page='' url of
                  Inl e \<Rightarrow> 1
                | Inr parts \<Rightarrow>
                    if length parts < 2 then 1
                    else (case py_int (parts ! 1) of Inl e \<Rightarrow> 1 | Inr n \<Rightarrow> n))))"

text \<open>\<^verbatim>\<open>firstPage.json()\<close>: only the response object has the method.\<close>

definition result_json :: "apiresult \<Rightarrow> error + json" where
  "result_json res =
     (case res of
        Json j \<Rightarrow> Inl AttributeError
      | Request r \<Rightarrow> (case body r of None \<Rightarrow> Inl JSONDecodeError | Some j \<Rightarrow> Inr j))"

definition pageLimit :: int where
  "pageLimit = 10"

text \<open>Lines 78 to 80: the loop over \<^verbatim>\<open>range(2, lastPage + 1)\<close>.\<close>

fun fetchPages :: "server \<Rightarrow> string \<Rightarrow> int list \<Rightarrow> json \<Rightarrow> world \<Rightarrow> (error + json) \<times> world" where
  "fetchPages srv apiUrl [] iterable w = (Inr iterable, w)"
| "fetchPages srv apiUrl (page # pages) iterable w =
     (case getGithubApiRequest srv (apiUrl @ ''?per_page=100&page='' @ str_int page) True w of
        (Inl e, w1) \<Rightarrow> (Inl e, w1)
      | (Inr (Request r), w1) \<Rightarrow> (Inl TypeError, w1)
      | (Inr (Json iterationsInstance), w1) \<Rightarrow>
          (case py_extend iterable iterationsInstance of
             Inl e \<Rightarrow> (Inl e, w1)
           | Inr iterable' \<Rightarrow> fetchPages srv apiUrl pages iterable' w1))"

definition getPaginatedGithubApiRequest :: "server \<Rightarrow> string \<Rightarrow> world \<Rightarrow> (error + json) \<times> world" where
  "getPaginatedGithubApiRequest srv apiUrl w =
     (case getGithubApiRequest srv (apiUrl @ ''?per_page=100'') False w of
        (Inl e, w1) \<Rightarrow> (Inl e, w1)
      | (Inr firstPage, w1) \<Rightarrow>
     (case result_json firstPage of
        Inl e \<Rightarrow> (Inl e, w1)
      | Inr iterable \<Rightarrow>
          (let lastPage = parseLastPage firstPage;
               w2 = (if lastPage > pageLimit
                     then logPrint (Text (''There are over '' @ str_int pageLimit
                                          @ '' pages! Limiting to '' @ str_int pageLimit @ '' pages''))
                                   (Some ''warning'') w1
                     else w1);
               lastPage' = (if lastPage > pageLimit then pageLimit else lastPage)
           in fetchPages srv apiUrl [2..lastPage'] iterable w2)))"

definition getListOfRepos :: "server \<Rightarrow> string \<Rightarrow> string \<Rightarrow> world \<Rightarrow> (error + json) \<times> world" where
  "getListOfRepos srv repoName context w =
     getPaginatedGithubApiRequest srv (''repos/'' @ repoName @ ''/'' @ context) w"

definition getRepoTraffic :: "server \<Rightarrow> string \<Rightarrow> string \<Rightarrow> world \<Rightarrow> (error + json) \<times> world" where
  "getRepoTraffic srv repoName traffic w =
     (case getGithubApiRequest srv (''repos/'' @ repoName @ ''/traffic/'' @ traffic) True w of
        (Inl e, w1) \<Rightarrow> (Inl e, w1)
      | (Inr (Request r), w1) \<Rightarrow> (Inl TypeError, w1)
      | (Inr (Json j), w1) \<Rightarrow> (Inr j, w1))"

text \<open>
  Modelled from the spec: \<^verbatim>\<open>utils.getDatetime\<close> is not among the sources. The spec has it
  parse a platform timestamp into a comparable instant, so it is a parameter \<open>gd\<close> of the
  functions that call it: from the JSON value it is given to the instant, or to the error
  it raises.
\<close>

type_synonym getDatetime = "json \<Rightarrow> error + int"

text \<open>\<^verbatim>\<open>getListOfAliveForks\<close>, lines 49 to 54: the loop over the forks.\<close>

fun aliveForksLoop ::
  "getDatetime \<Rightarrow> (nat \<Rightarrow> int) \<Rightarrow> json \<Rightarrow> int \<Rightarrow> bool \<Rightarrow> json list \<Rightarrow> json list \<Rightarrow> world
     \<Rightarrow> (error + json list) \<times> world" where
  "aliveForksLoop gd clock repoData lifespan enableNewer [] aliveRepos w = (Inr aliveRepos, w)"
| "aliveForksLoop gd clock repoData lifespan enableNewer (forkedRepo # rest) aliveRepos w =
     (case py_getitem forkedRepo ''pushed_at'' of
        Inl e \<Rightarrow> (Inl e, w)
      | Inr pushed \<Rightarrow>
     (case gd pushed of
        Inl e \<Rightarrow> (Inl e, w)
      | Inr forkedRepoPushedAt \<Rightarrow>
     (case timedelta_weeks lifespan of
        Inl e \<Rightarrow> (Inl e, w)
      | Inr delta \<Rightarrow>
     (case datetime_add forkedRepoPushedAt delta of
        Inl e \<Rightarrow> (Inl e, w)
      | Inr deadline \<Rightarrow>
     (case datetime_now clock w of
        (now, w1) \<Rightarrow>
     (case py_getitem repoData ''pushed_at'' of
        Inl e \<Rightarrow> (Inl e, w1)
      | Inr sourcePushed \<Rightarrow>
     (case gd sourcePushed of
        Inl e \<Rightarrow> (Inl e, w1)
      | Inr sourcePushedAt \<Rightarrow>
          (let isAlive = deadline > now;
               isNewer = forkedRepoPushedAt > sourcePushedAt
           in aliveForksLoop gd clock repoData lifespan enableNewer rest
                (if (isAlive \<and> isNewer) \<or> (isAlive \<and> \<not> enableNewer)
                 then aliveRepos @ [forkedRepo] else aliveRepos) w1))))))))"

definition getListOfAliveForks ::
  "getDatetime \<Rightarrow> (nat \<Rightarrow> int) \<Rightarrow> server \<Rightarrow> json \<Rightarrow> int \<Rightarrow> bool \<Rightarrow> world
     \<Rightarrow> (error + json \<times> json) \<times> world" where
  "getListOfAliveForks gd clock srv repoData lifespan enableNewer w =
     (case py_getitem repoData ''full_name'' of
        Inl e \<Rightarrow> (Inl e, w)
      | Inr (JStr fullName) \<Rightarrow>
          (case getListOfRepos srv fullName ''forks'' w of
             (Inl e, w1) \<Rightarrow> (Inl e, w1)
           | (Inr forkedRepos, w1) \<Rightarrow>
               (case py_iter forkedRepos of
                  Inl e \<Rightarrow> (Inl e, w1)
                | Inr forks \<Rightarrow>
                    (case aliveForksLoop gd clock repoData lifespan enableNewer forks [] w1 of
                       (Inl e, w2) \<Rightarrow> (Inl e, w2)
                     | (Inr aliveRepos, w2) \<Rightarrow> (Inr (JList aliveRepos, forkedRepos), w2))))
      | Inr other \<Rightarrow> (Inl TypeError, w))"

section \<open>main/UserReposTraffic.py\<close>

text \<open>Line 26: the entry a series starts with.\<close>

definition seedSample :: json where
  "seedSample = JDict [(''timestamp'', JStr ''2000-01-01T00:00:00Z''), (''uniques'', JInt 0)]"

text \<open>Lines 31 to 34 of \<^verbatim>\<open>mergeDataWithJson\<close>: the loop over the days the service reports.\<close>

fun appendNewer :: "getDatetime \<Rightarrow> json \<Rightarrow> json list \<Rightarrow> error + json" where
  "appendNewer gd userRepoTrafficType [] = Inr userRepoTrafficType"
| "appendNewer gd userRepoTrafficType (day # days) =
     (case py_last userRepoTrafficType of
        Inl e \<Rightarrow> Inl e
      | Inr lastEntry \<Rightarrow>
     (case py_getitem lastEntry ''timestamp'' of
        Inl e \<Rightarrow> Inl e
      | Inr lastStamp \<Rightarrow>
     (case gd lastStamp of
        Inl e \<Rightarrow> Inl e
      | Inr lastTime \<Rightarrow>
     (case py_getitem day ''timestamp'' of
        Inl e \<Rightarrow> Inl e
      | Inr dayStamp \<Rightarrow>
     (case gd dayStamp of
        Inl e \<Rightarrow> Inl e
      | Inr dayTime \<Rightarrow>
          if lastTime < dayTime
          then (case py_getitem day ''uniques'' of
                  Inl e \<Rightarrow> Inl e
                | Inr dayUniques \<Rightarrow>
                    (case py_append userRepoTrafficType
                            (JDict [(''timestamp'', dayStamp), (''uniques'', dayUniques)]) of
                       Inl e \<Rightarrow> Inl e
                     | Inr extended \<Rightarrow> appendNewer gd extended days))
          else appendNewer gd userRepoTrafficType days)))))"

text \<open>Lines 16 to 20: the ledger as read from the file, or an empty one.\<close>

definition loadLedger :: "world \<Rightarrow> json \<times> world" where
  "loadLedger w =
     (case ledger_file w of
        Some doc \<Rightarrow> (doc, w)
      | None \<Rightarrow> (JDict [], logPrint (Text ''userReposTraffic.json does not exist - creating'')
                                   (Some ''warning'') w))"

text \<open>Lines 21 to 23: the repository's entry, created when missing.\<close>

definition ensureRepo :: "string \<Rightarrow> json \<Rightarrow> world \<Rightarrow> (error + json) \<times> world" where
  "ensureRepo repoName userReposTraffic w =
     (case py_contains repoName userReposTraffic of
        Inl e \<Rightarrow> (Inl e, w)
      | Inr present \<Rightarrow>
          if present then (Inr userReposTraffic, w)
          else (let w1 = logPrint (Text (repoName @ '' does not exist - creating'')) (Some ''warning'') w
                in case py_setitem userReposTraffic repoName (JDict []) of
                     Inl e \<Rightarrow> (Inl e, w1)
                   | Inr created \<Rightarrow> (Inr created, w1)))"

text \<open>Lines 24 to 28: the stored series of the traffic type, or the seed.\<close>

definition currentSeries :: "string \<Rightarrow> string \<Rightarrow> json \<Rightarrow> world \<Rightarrow> (error + json) \<times> world" where
  "currentSeries repoName trafficType userReposTraffic w =
     (case py_getitem userReposTraffic repoName of
        Inl e \<Rightarrow> (Inl e, w)
      | Inr repoEntry \<Rightarrow>
     (case py_contains trafficType repoEntry of
        Inl e \<Rightarrow> (Inl e, w)
      | Inr present \<Rightarrow>
          if \<not> present
          then (Inr (JList [seedSample]),
                logPrint (Text (trafficType @ '' does not exist - creating'')) (Some ''warning'') w)
          else (case py_getitem repoEntry trafficType of
                  Inl e \<Rightarrow> (Inl e, w)
                | Inr series \<Rightarrow> (Inr series, w))))"

text \<open>Line 36: \<^verbatim>\<open>userReposTraffic[repoName][trafficType] = userRepoTrafficType\<close>.\<close>

definition storeSeries :: "string \<Rightarrow> string \<Rightarrow> json \<Rightarrow> json \<Rightarrow> error + json" where
  "storeSeries repoName trafficType userRepoTrafficType userReposTraffic =
     (case py_getitem userReposTraffic repoName of
        Inl e \<Rightarrow> Inl e
      | Inr repoEntry \<Rightarrow>
     (case py_setitem repoEntry trafficType userRepoTrafficType of
        Inl e \<Rightarrow> Inl e
      | Inr repoEntry' \<Rightarrow> py_setitem userReposTraffic repoName repoEntry'))"

definition mergeDataWithJson ::
  "getDatetime \<Rightarrow> server \<Rightarrow> string \<Rightarrow> string \<Rightarrow> world \<Rightarrow> (error + unit) \<times> world" where
  "mergeDataWithJson gd srv repoName trafficType w =
     (case loadLedger w of
        (loaded, w1) \<Rightarrow>
     (case ensureRepo repoName loaded w1 of
        (Inl e, w2) \<Rightarrow> (Inl e, w2)
      | (Inr userReposTraffic, w2) \<Rightarrow>
     (case currentSeries repoName trafficType userReposTraffic w2 of
        (Inl e, w3) \<Rightarrow> (Inl e, w3)
      | (Inr userRepoTrafficType, w3) \<Rightarrow>
     (case getRepoTraffic srv repoName trafficType w3 of
        (Inl e, w4) \<Rightarrow> (Inl e, w4)
      | (Inr traffic, w4) \<Rightarrow>
     (case py_getitem traffic trafficType of
        Inl e \<Rightarrow> (Inl e, w4)
      | Inr daysJson \<Rightarrow>
     (case py_iter daysJson of
        Inl e \<Rightarrow> (Inl e, w4)
      | Inr days \<Rightarrow>
     (case appendNewer gd userRepoTrafficType days of
        Inl e \<Rightarrow> (Inl e, w4)
      | Inr merged \<Rightarrow>
     (case storeSeries repoName trafficType merged userReposTraffic of
        Inl e \<Rightarrow> (Inl e, w4)
      | Inr written \<Rightarrow> (Inr (), w4\<lparr>ledger_file := Some written\<rparr>)))))))))"

text \<open>Lines 43 to 46 of \<^verbatim>\<open>getJsonData\<close>: the running sum.\<close>

fun sumUniques :: "int \<Rightarrow> json list \<Rightarrow> error + int" where
  "sumUniques returnData [] = Inr returnData"
| "sumUniques returnData (trafficEntity # rest) =
     (case py_getitem trafficEntity ''uniques'' of
        Inl e \<Rightarrow> Inl e
      | Inr uniques \<Rightarrow>
          (case py_add returnData uniques of
             Inl e \<Rightarrow> Inl e
           | Inr returnData' \<Rightarrow> sumUniques returnData' rest))"

definition getJsonData :: "string \<Rightarrow> string \<Rightarrow> world \<Rightarrow> error + int" where
  "getJsonData repoName trafficType w =
     (case ledger_file w of
        None \<Rightarrow> Inl FileNotFoundError
      | Some doc \<Rightarrow>
     (case py_getitem doc repoName of
        Inl e \<Rightarrow> Inl e
      | Inr repoEntry \<Rightarrow>
     (case py_getitem repoEntry trafficType of
        Inl e \<Rightarrow> Inl e
      | Inr userRepoTraffic \<Rightarrow>
     (case py_iter userRepoTraffic of
        Inl e \<Rightarrow> Inl e
      | Inr entities \<Rightarrow> sumUniques 0 entities))))"

text \<open>
  Lines 70 to 73: the score of a repository and the tuple kept for the ranking:
  (score, label, alive forks, stars, clones, views).
\<close>

type_synonym scoreEntry = "int \<times> string \<times> int \<times> int \<times> int \<times> int"

definition score :: "json list \<Rightarrow> int \<Rightarrow> int \<Rightarrow> int \<Rightarrow> int" where
  "score aliveForks stars clones views = int (length aliveForks) * 8 + stars * 4 + clones * 2 + views"

definition archivedTag :: string where
  "archivedTag = CHR ''['' # CHR 0x1B # ''[91mArchived'' @ CHR 0x1B # ''[00m] ''"

definition scoreEntryOf :: "bool \<Rightarrow> string \<Rightarrow> json list \<Rightarrow> int \<Rightarrow> int \<Rightarrow> int \<Rightarrow> scoreEntry" where
  "scoreEntryOf isArchived repositoryName aliveForks stars clones views =
     (score aliveForks stars clones views,
      (if isArchived then archivedTag else []) @ repositoryName,
      int (length aliveForks), stars, clones, views)"

text \<open>Lines 76 to 79.\<close>

definition getKey :: "scoreEntry \<Rightarrow> int" where
  "getKey item = fst item"

text \<open>
  \<^verbatim>\<open>sorted(xs, key=k, reverse=r)\<close>: a stable sort by the key; for a descending order the
  list is reversed, sorted and reversed again, which keeps equal keys in their order.
\<close>

definition py_sorted :: "('a \<Rightarrow> 'k::linorder) \<Rightarrow> bool \<Rightarrow> 'a list \<Rightarrow> 'a list" where
  "py_sorted key reverse xs = (if reverse then rev (sort_key key (rev xs)) else sort_key key xs)"

definition sortedRepos :: "scoreEntry list \<Rightarrow> scoreEntry list" where
  "sortedRepos sortRepos = py_sorted getKey True sortRepos"

section \<open>What the statements speak of\<close>

subsection \<open>Requests\<close>







subsection \<open>Forks\<close>

text \<open>\<^verbatim>\<open>utils.getDatetime(repo["pushed_at"])\<close>.\<close>

definition pushedAt :: "getDatetime \<Rightarrow> json \<Rightarrow> error + int" where
  "pushedAt gd repo = (case py_getitem repo ''pushed_at'' of Inl e \<Rightarrow> Inl e | Inr p \<Rightarrow> gd p)"

text \<open>
  The spec's words (4.3): \<open>isAlive(lastPushedAt, now, lifespanWeeks)\<close> is
  \<open>lastPushedAt + lifespanWeeks*7days > now\<close>, and a fork is included iff
  \<open>(alive AND newer) OR (alive AND NOT requireNewerThanSource)\<close>, with \<open>newer\<close> for
  \<open>fork.lastPushedAt > sourceLastPushedAt\<close>. Instants in microseconds.
\<close>

definition spec_isAlive :: "int \<Rightarrow> int \<Rightarrow> int \<Rightarrow> bool" where
  "spec_isAlive lastPushedAt now lifespanWeeks =
     (lastPushedAt + lifespanWeeks * (7 * (24 * 3600 * 1000000)) > now)"

definition spec_include :: "int \<Rightarrow> int \<Rightarrow> int \<Rightarrow> int \<Rightarrow> bool \<Rightarrow> bool" where
  "spec_include forkPushedAt sourceLastPushedAt now lifespanWeeks requireNewerThanSource =
     (let alive = spec_isAlive forkPushedAt now lifespanWeeks;
          newer = forkPushedAt > sourceLastPushedAt
      in (alive \<and> newer) \<or> (alive \<and> \<not> requireNewerThanSource))"

text \<open>The spec's predicate on a fork and the source as the service describes them.\<close>

definition forkIncluded :: "getDatetime \<Rightarrow> json \<Rightarrow> int \<Rightarrow> bool \<Rightarrow> int \<Rightarrow> json \<Rightarrow> bool" where
  "forkIncluded gd repoData lifespan enableNewer now fork =
     (case (pushedAt gd fork, pushedAt gd repoData) of
        (Inr forkPushedAt, Inr sourceLastPushedAt) \<Rightarrow>
          spec_include forkPushedAt sourceLastPushedAt now lifespan enableNewer
      | _ \<Rightarrow> False)"

subsection \<open>The ledger\<close>

text \<open>
  What \<^verbatim>\<open>json.loads(...)[repoName]\<close> and \<^verbatim>\<open>json.loads(...)[repoName][trafficType]\<close> find in
  the file: the entry of a repository and the stored series of one of its traffic types.
\<close>

definition ledger_repo :: "json option \<Rightarrow> string \<Rightarrow> json option" where
  "ledger_repo doc repo = (case doc of Some (JDict ents) \<Rightarrow> map_of ents repo | _ \<Rightarrow> None)"

definition ledger_entry :: "json option \<Rightarrow> string \<Rightarrow> string \<Rightarrow> json option" where
  "ledger_entry doc repo kind =
     (case ledger_repo doc repo of Some (JDict inner) \<Rightarrow> map_of inner kind | _ \<Rightarrow> None)"

text \<open>
  No series is stored for the pair, in a ledger a merge can complete on: there is no file,
  or no entry for the repository, or none for the traffic type in it.
\<close>

definition entryMissing :: "json option \<Rightarrow> string \<Rightarrow> string \<Rightarrow> bool" where
  "entryMissing doc repo kind =
     (case doc of
        None \<Rightarrow> True
      | Some (JDict ents) \<Rightarrow>
          (case map_of ents repo of
             None \<Rightarrow> True
           | Some (JDict inner) \<Rightarrow> map_of inner kind = None
           | Some other \<Rightarrow> False)
      | Some other \<Rightarrow> False)"

text \<open>The series the loop of a merge starts from: the stored one, or the seed.\<close>

definition startSeries :: "(string \<times> json) list \<Rightarrow> string \<Rightarrow> json" where
  "startSeries inner kind = (case map_of inner kind of None \<Rightarrow> JList [seedSample] | Some s \<Rightarrow> s)"

text \<open>\<^verbatim>\<open>utils.getDatetime(sample["timestamp"])\<close>, and the order of two samples by it.\<close>

definition stamp :: "getDatetime \<Rightarrow> json \<Rightarrow> error + int" where
  "stamp gd x = (case py_getitem x ''timestamp'' of Inl e \<Rightarrow> Inl e | Inr t \<Rightarrow> gd t)"

definition stamp_lt :: "getDatetime \<Rightarrow> json \<Rightarrow> json \<Rightarrow> bool" where
  "stamp_lt gd x y = (case (stamp gd x, stamp gd y) of (Inr a, Inr b) \<Rightarrow> a < b | _ \<Rightarrow> False)"

text \<open>A series in strictly ascending order of time; a ledger all of whose series are.\<close>

definition ascending :: "getDatetime \<Rightarrow> json list \<Rightarrow> bool" where
  "ascending gd xs = sorted_wrt (stamp_lt gd) xs"

definition seriesAscending :: "getDatetime \<Rightarrow> json \<Rightarrow> bool" where
  "seriesAscending gd series = (case series of JList xs \<Rightarrow> ascending gd xs | _ \<Rightarrow> True)"

definition repoAscending :: "getDatetime \<Rightarrow> json \<Rightarrow> bool" where
  "repoAscending gd entry =
     (case entry of JDict inner \<Rightarrow> list_all (\<lambda>ks. seriesAscending gd (snd ks)) inner | _ \<Rightarrow> True)"

definition ledgerAscending :: "getDatetime \<Rightarrow> json option \<Rightarrow> bool" where
  "ledgerAscending gd doc =
     (case doc of Some (JDict ents) \<Rightarrow> list_all (\<lambda>re. repoAscending gd (snd re)) ents | _ \<Rightarrow> True)"

text \<open>
  Any number of merges, one after the other, each with the service as it answers then. A
  merge that raises leaves the file as it was, and the next one starts from that file.
\<close>

fun runMerges :: "getDatetime \<Rightarrow> (server \<times> string \<times> string) list \<Rightarrow> world \<Rightarrow> world" where
  "runMerges gd [] w = w"
| "runMerges gd ((srv, repoName, trafficType) # rest) w =
     runMerges gd rest (snd (mergeDataWithJson gd srv repoName trafficType w))"

text \<open>
  The spec's words (4.4): for each sample in \<open>freshSamples\<close>, append it to the stored
  sequence iff its timestamp is strictly greater than the current last stored timestamp.
\<close>

fun spec_mergeTraffic :: "('s \<Rightarrow> int) \<Rightarrow> 's list \<Rightarrow> 's list \<Rightarrow> 's list" where
  "spec_mergeTraffic timestamp stored [] = stored"
| "spec_mergeTraffic timestamp stored (sample # freshSamples) =
     spec_mergeTraffic timestamp
       (if timestamp (last stored) < timestamp sample then stored @ [sample] else stored)
       freshSamples"

text \<open>
  A fresh sample the loop can take (it has a timestamp that parses, and a count of
  uniques), the sample stored for it, and the time of a stored sample.
\<close>

definition freshOk :: "getDatetime \<Rightarrow> json \<Rightarrow> bool" where
  "freshOk gd day =
     (case (stamp gd day, py_getitem day ''uniques'') of (Inr t, Inr u) \<Rightarrow> True | _ \<Rightarrow> False)"

definition storedSample :: "json \<Rightarrow> json" where
  "storedSample day =
     (case (py_getitem day ''timestamp'', py_getitem day ''uniques'') of
        (Inr t, Inr u) \<Rightarrow> JDict [(''timestamp'', t), (''uniques'', u)]
      | _ \<Rightarrow> JNull)"

definition timeOf :: "getDatetime \<Rightarrow> json \<Rightarrow> int" where
  "timeOf gd x = (case stamp gd x of Inr t \<Rightarrow> t | Inl e \<Rightarrow> 0)"

subsection \<open>Sample data\<close>

text \<open>
  Modelled from the spec: \<^verbatim>\<open>utils.getDatetime\<close> is not among the sources. For the examples
  it is this table: each timestamp of the form \<^verbatim>\<open>YYYY-MM-DDThh:mm:ssZ\<close> used below is read
  as the instant it names (microseconds since 0001-01-01T00:00:00), and nothing else is a
  timestamp.
\<close>

definition sampleDatetime :: getDatetime where
  "sampleDatetime j =
     (if j = JStr ''1999-12-31T00:00:00Z'' then Inr 63082195200000000
      else if j = JStr ''2000-01-01T00:00:00Z'' then Inr 63082281600000000
      else if j = JStr ''2023-06-01T00:00:00Z'' then Inr 63821174400000000
      else if j = JStr ''2023-12-25T00:00:00Z'' then Inr 63839059200000000
      else if j = JStr ''2024-01-01T00:00:00Z'' then Inr 63839664000000000
      else if j = JStr ''2024-01-02T00:00:00Z'' then Inr 63839750400000000
      else if j = JStr ''2024-01-03T00:00:00Z'' then Inr 63839836800000000
      else if j = JStr ''2024-02-01T00:00:00Z'' then Inr 63842342400000000
      else if j = JStr ''2024-03-01T00:00:00Z'' then Inr 63844848000000000
      else Inl ValueError)"

text \<open>
  An answer of the service with 59 requests left, a sample of a day as the traffic
  endpoint reports it, and a world in which nothing has happened yet.
\<close>

definition answer :: "json \<Rightarrow> string option \<Rightarrow> response" where
  "answer j lastLink =
     \<lparr>rate_remaining = Some ''59'', rate_reset = Some ''1700000000'', body = Some j,
      last_url = lastLink\<rparr>"

definition daySample :: "string \<Rightarrow> int \<Rightarrow> int \<Rightarrow> json" where
  "daySample t c u = JDict [(''timestamp'', JStr t), (''count'', JInt c), (''uniques'', JInt u)]"

definition freshWorld :: world where
  "freshWorld = \<lparr>logged = [], requested = [], clock_reads = 0, ledger_file = None\<rparr>"

text \<open>
  A source repository pushed on 2024-01-01 with three forks, one pushed a month later, one
  half a year earlier and one a week earlier; services that answer every request with the
  forks, with the traffic of some days, or with one page of a listing whose last page has a
  given number; and a ledger with two repositories.
\<close>

definition sampleSource :: json where
  "sampleSource = JDict [(''full_name'', JStr ''octocat/hello''), (''pushed_at'', JStr ''2024-01-01T00:00:00Z'')]"

definition sampleForkA :: json where
  "sampleForkA = JDict [(''full_name'', JStr ''alice/hello''), (''pushed_at'', JStr ''2024-02-01T00:00:00Z'')]"

definition sampleForkB :: json where
  "sampleForkB = JDict [(''full_name'', JStr ''bob/hello''), (''pushed_at'', JStr ''2023-06-01T00:00:00Z'')]"

definition sampleForkC :: json where
  "sampleForkC = JDict [(''full_name'', JStr ''carol/hello''), (''pushed_at'', JStr ''2023-12-25T00:00:00Z'')]"

definition forksService :: server where
  "forksService url = Inr (answer (JList [sampleForkA, sampleForkB, sampleForkC]) None)"

definition trafficService :: "string \<Rightarrow> json list \<Rightarrow> server" where
  "trafficService kind days url = Inr (answer (JDict [(''count'', JInt 20), (''uniques'', JInt 8), (kind, JList days)]) None)"


definition sampleLedger :: json where
  "sampleLedger =
     JDict [(''octocat/hello'',
               JDict [(''views'', JList [seedSample]),
                      (''clones'', JList [seedSample,
                                          JDict [(''timestamp'', JStr ''2024-01-01T00:00:00Z''), (''uniques'', JInt 4)]])]),
            (''octocat/other'', JDict [(''views'', JList [seedSample])])]"

section \<open>Supporting lemmas\<close>

subsection \<open>Requests\<close>

lemma py_int_zero: "py_int ''0'' = Inr 0"
  by (simp add: py_int_def strip_def is_space_def py_nat_def digit_of_def)

text \<open>
  A response whose remaining-rate-limit count is below 1 makes \<^verbatim>\<open>getGithubApiRequest\<close>
  raise: it returns no data and prints nothing.
\<close>

lemma getGithubApiRequest_exhausted:
  assumes "srv (''https://api.github.com/'' @ urlExcBase) = Inr r"
    and "rate_remaining r = Some t" and "py_int t = Inr n" and "n < 1"
  shows "\<exists>e. fst (getGithubApiRequest srv urlExcBase jsonOnly w) = Inl e
           \<and> logged (snd (getGithubApiRequest srv urlExcBase jsonOnly w)) = logged w"
  using assms
  by (auto simp add: getGithubApiRequest_def Let_def rateLimitNotice_def time_ctime_str_def
           split: option.splits)


lemma getGithubApiRequest_keeps:
  "ledger_file (snd (getGithubApiRequest srv u jsonOnly w)) = ledger_file w
   \<and> clock_reads (snd (getGithubApiRequest srv u jsonOnly w)) = clock_reads w"
  by (auto simp add: getGithubApiRequest_def Let_def rateLimitNotice_def logPrint_def
           split: option.splits sum.splits prod.splits)

lemma getGithubApiRequest_fst:
  "fst (getGithubApiRequest srv u jsonOnly w) = fst (getGithubApiRequest srv u jsonOnly w0)"
  by (auto simp add: getGithubApiRequest_def Let_def rateLimitNotice_def logPrint_def time_ctime_str_def
           split: option.splits sum.splits prod.splits)





subsection \<open>The stages of a merge\<close>

lemma py_getitem_Inr: "py_getitem x k = Inr v \<longleftrightarrow> (\<exists>kvs. x = JDict kvs \<and> map_of kvs k = Some v)"
  by (cases x) (auto split: option.splits)

lemma py_setitem_Inr: "py_setitem x k v = Inr y \<longleftrightarrow> (\<exists>kvs. x = JDict kvs \<and> y = JDict (AList.update k v kvs))"
  by (cases x) auto

lemma getRepoTraffic_keeps:
  "getRepoTraffic srv repo kind w = (res, w') \<Longrightarrow> ledger_file w' = ledger_file w"
  using getGithubApiRequest_keeps [of srv "''repos/'' @ repo @ ''/traffic/'' @ kind" True w]
  by (auto simp add: getRepoTraffic_def split: prod.splits sum.splits apiresult.splits)

lemma getRepoTraffic_fst:
  "fst (getRepoTraffic srv repo kind w) = fst (getRepoTraffic srv repo kind w0)"
  using getGithubApiRequest_fst [of srv "''repos/'' @ repo @ ''/traffic/'' @ kind" True w w0]
  by (auto simp add: getRepoTraffic_def split: prod.splits sum.splits apiresult.splits)

lemma loadLedger_keeps: "loadLedger w = (loaded, w') \<Longrightarrow> ledger_file w' = ledger_file w"
  by (auto simp add: loadLedger_def logPrint_def split: option.splits)

lemma ensureRepo_keeps: "ensureRepo repo loaded w = (res, w') \<Longrightarrow> ledger_file w' = ledger_file w"
  by (auto simp add: ensureRepo_def logPrint_def Let_def split: sum.splits if_splits)

lemma currentSeries_keeps: "currentSeries repo kind ledger w = (res, w') \<Longrightarrow> ledger_file w' = ledger_file w"
  by (auto simp add: currentSeries_def logPrint_def Let_def split: sum.splits if_splits)

lemma merge_fail_keeps:
  assumes "mergeDataWithJson gd srv repo kind w = (Inl e, w')"
  shows "ledger_file w' = ledger_file w"
  using assms
  by (auto simp add: mergeDataWithJson_def split: prod.splits sum.splits
      dest!: loadLedger_keeps ensureRepo_keeps currentSeries_keeps getRepoTraffic_keeps)

lemma merge_stages:
  assumes "mergeDataWithJson gd srv repo kind w = (Inr u, w')"
  obtains loaded w1 ledger w2 series w3 traffic w4 daysJson days merged written where
     "loadLedger w = (loaded, w1)" "ensureRepo repo loaded w1 = (Inr ledger, w2)"
     "currentSeries repo kind ledger w2 = (Inr series, w3)"
     "getRepoTraffic srv repo kind w3 = (Inr traffic, w4)"
     "py_getitem traffic kind = Inr daysJson" "py_iter daysJson = Inr days"
     "appendNewer gd series days = Inr merged"
     "storeSeries repo kind merged ledger = Inr written" "w' = w4\<lparr>ledger_file := Some written\<rparr>"
  using assms
  by (auto simp add: mergeDataWithJson_def split: prod.splits sum.splits)

lemma storeSeries_Inr:
  "storeSeries repo kind merged ledger = Inr written \<longleftrightarrow>
     (\<exists>ents inner. ledger = JDict ents \<and> map_of ents repo = Some (JDict inner)
        \<and> written = JDict (AList.update repo (JDict (AList.update kind merged inner)) ents))"
  by (auto simp add: storeSeries_def py_getitem_Inr py_setitem_Inr split: sum.splits)

lemma ensureRepo_JDict:
  assumes "ensureRepo repo loaded w = (Inr (JDict ents'), w')"
  shows "\<exists>ents. loaded = JDict ents
           \<and> (map_of ents repo \<noteq> None \<and> ents' = ents
              \<or> map_of ents repo = None \<and> ents' = AList.update repo (JDict []) ents)"
  using assms
  by (cases loaded) (auto simp add: ensureRepo_def Let_def split: if_splits)

lemma currentSeries_JDict:
  assumes "currentSeries repo kind (JDict ents) w = (Inr series, w')"
    and "map_of ents repo = Some (JDict inner)"
  shows "series = startSeries inner kind"
  using assms
  by (auto simp add: currentSeries_def startSeries_def split: if_splits option.splits)

lemma loadLedger_fst:
  "loadLedger w = (loaded, w') \<Longrightarrow> loaded = (case ledger_file w of None \<Rightarrow> JDict [] | Some doc \<Rightarrow> doc)"
  by (auto simp add: loadLedger_def split: option.splits)

lemma merge_okE:
  assumes "mergeDataWithJson gd srv repo kind w = (Inr u, w')"
  obtains ents inner traffic daysJson days merged where
    "ledger_file w = None \<and> ents = [] \<or> ledger_file w = Some (JDict ents)"
    "map_of ents repo = None \<and> inner = [] \<or> map_of ents repo = Some (JDict inner)"
    "fst (getRepoTraffic srv repo kind w) = Inr traffic"
    "py_getitem traffic kind = Inr daysJson" "py_iter daysJson = Inr days"
    "appendNewer gd (startSeries inner kind) days = Inr merged"
    "ledger_file w' = Some (JDict (AList.update repo (JDict (AList.update kind merged inner)) ents))"
proof -
  from merge_stages [OF assms]
  obtain loaded w1 ledger w2 series w3 traffic w4 daysJson days merged written where
    st: "loadLedger w = (loaded, w1)" "ensureRepo repo loaded w1 = (Inr ledger, w2)"
     "currentSeries repo kind ledger w2 = (Inr series, w3)"
     "getRepoTraffic srv repo kind w3 = (Inr traffic, w4)"
     "py_getitem traffic kind = Inr daysJson" "py_iter daysJson = Inr days"
     "appendNewer gd series days = Inr merged"
     "storeSeries repo kind merged ledger = Inr written" "w' = w4\<lparr>ledger_file := Some written\<rparr>"
    by blast
  from st(8) obtain ents' inner' where
    led: "ledger = JDict ents'" "map_of ents' repo = Some (JDict inner')"
      "written = JDict (AList.update repo (JDict (AList.update kind merged inner')) ents')"
    by (auto simp add: storeSeries_Inr)
  from ensureRepo_JDict [OF st(2) [unfolded led(1)]] obtain ents where
    ents: "loaded = JDict ents"
      "map_of ents repo \<noteq> None \<and> ents' = ents \<or> map_of ents repo = None \<and> ents' = AList.update repo (JDict []) ents"
    by blast
  have ser: "series = startSeries inner' kind"
    using currentSeries_JDict [OF st(3) [unfolded led(1)] led(2)] .
  have doc: "ledger_file w = None \<and> ents = [] \<or> ledger_file w = Some (JDict ents)"
    using loadLedger_fst [OF st(1)] ents(1) by (auto split: option.splits)
  have traffic: "fst (getRepoTraffic srv repo kind w) = Inr traffic"
    using getRepoTraffic_fst [of srv repo kind w w3] st(4) by simp
  have w': "ledger_file w' = Some written" using st(9) by simp
  from ents(2) show thesis
  proof
    assume a: "map_of ents repo \<noteq> None \<and> ents' = ents"
    then have "map_of ents repo = None \<and> inner' = [] \<or> map_of ents repo = Some (JDict inner')"
      using led(2) by simp
    then show thesis
      using that [of ents inner' traffic daysJson days merged] doc traffic st(5,6,7) ser w' led(3) a
      by simp
  next
    assume a: "map_of ents repo = None \<and> ents' = AList.update repo (JDict []) ents"
    then have i: "inner' = []" using led(2) by (simp add: update_conv')
    have "written = JDict (AList.update repo (JDict (AList.update kind merged [])) ents)"
      using led(3) a i by simp
    then show thesis
      using that [of ents "[]" traffic daysJson days merged] doc traffic st(5,6,7) ser w' a i
      by simp
  qed
qed

lemma merge_okI:
  assumes doc: "ledger_file w = None \<and> ents = [] \<or> ledger_file w = Some (JDict ents)"
    and inner: "map_of ents repo = None \<and> inner = [] \<or> map_of ents repo = Some (JDict inner)"
    and traffic: "fst (getRepoTraffic srv repo kind w0) = Inr traffic"
    and days: "py_getitem traffic kind = Inr daysJson" "py_iter daysJson = Inr days"
    and merged: "appendNewer gd (startSeries inner kind) days = Inr merged"
  shows "fst (mergeDataWithJson gd srv repo kind w) = Inr ()
       \<and> ledger_file (snd (mergeDataWithJson gd srv repo kind w))
           = Some (JDict (AList.update repo (JDict (AList.update kind merged inner)) ents))"
proof -
  have t: "fst (getRepoTraffic srv repo kind w1) = Inr traffic" for w1
    using getRepoTraffic_fst [of srv repo kind w1 w0] traffic by simp
  have load: "fst (loadLedger w) = JDict ents"
    using doc by (auto simp add: loadLedger_def)
  show ?thesis
  proof (cases "map_of ents repo")
    case None
    then have i: "inner = []" using inner by simp
    have m: "appendNewer gd (JList [seedSample]) days = Inr merged"
      using merged i by (simp add: startSeries_def)
    show ?thesis
      using load None by (simp add: mergeDataWithJson_def case_prod_beta ensureRepo_def Let_def
          currentSeries_def update_conv' t days m storeSeries_def i)
  next
    case (Some a)
    then have a: "map_of ents repo = Some (JDict inner)" using inner by simp
    show ?thesis
    proof (cases "map_of inner kind")
      case None
      have m: "appendNewer gd (JList [seedSample]) days = Inr merged"
        using merged None by (simp add: startSeries_def)
      show ?thesis
        using load a None by (simp add: mergeDataWithJson_def case_prod_beta ensureRepo_def Let_def
          currentSeries_def t days m storeSeries_def)
    next
      case (Some s)
      have m: "appendNewer gd s days = Inr merged"
        using merged Some by (simp add: startSeries_def)
      show ?thesis
        using load a Some by (simp add: mergeDataWithJson_def case_prod_beta ensureRepo_def Let_def
          currentSeries_def t days m storeSeries_def)
    qed
  qed
qed

subsection \<open>The loop of a merge\<close>

lemma py_last_Inr_stamp:
  assumes "py_last start = Inr lastEntry" and "py_getitem lastEntry ''timestamp'' = Inr t"
  shows "\<exists>xs. start = JList xs \<and> xs \<noteq> [] \<and> lastEntry = last xs"
  using assms by (cases start) (auto split: if_splits)

lemma appendNewer_first:
  assumes "appendNewer gd start (d # rest) = Inr merged"
  shows "\<exists>xs a b. start = JList xs \<and> xs \<noteq> [] \<and> stamp gd (last xs) = Inr a \<and> stamp gd d = Inr b"
proof -
  from assms obtain lastEntry t a where
    l: "py_last start = Inr lastEntry" "py_getitem lastEntry ''timestamp'' = Inr t" "gd t = Inr a"
    by (auto split: sum.splits)
  from assms l obtain t' b where d: "py_getitem d ''timestamp'' = Inr t'" "gd t' = Inr b"
    by (auto split: sum.splits)
  from py_last_Inr_stamp [OF l(1) l(2)] obtain xs where "start = JList xs" "xs \<noteq> []" "lastEntry = last xs"
    by blast
  then show ?thesis using l d by (auto simp add: stamp_def)
qed

lemma appendNewer_step:
  assumes "xs \<noteq> []" and "stamp gd (last xs) = Inr a" and "stamp gd d = Inr b"
  shows "appendNewer gd (JList xs) (d # rest) =
     (if a < b
      then (case py_getitem d ''timestamp'' of Inl e \<Rightarrow> Inl e | Inr t \<Rightarrow>
            (case py_getitem d ''uniques'' of Inl e \<Rightarrow> Inl e
             | Inr u \<Rightarrow> appendNewer gd (JList (xs @ [JDict [(''timestamp'', t), (''uniques'', u)]])) rest))
      else appendNewer gd (JList xs) rest)"
  using assms by (auto simp add: stamp_def split: sum.splits)

lemma stamp_stored: "stamp gd (JDict [(''timestamp'', t), (''uniques'', u)]) = gd t"
  by (simp add: stamp_def)

lemma appendNewer_bound:
  assumes "appendNewer gd (JList xs) days = Inr merged" and "xs \<noteq> []" and "stamp gd (last xs) = Inr a"
  shows "\<exists>ys m. merged = JList (xs @ ys) \<and> stamp gd (last (xs @ ys)) = Inr m \<and> a \<le> m
           \<and> (\<forall>d\<in>set days. \<exists>b. stamp gd d = Inr b \<and> b \<le> m)"
  using assms
proof (induction days arbitrary: xs a)
  case Nil
  then show ?case by auto
next
  case (Cons d rest)
  from appendNewer_first [OF Cons.prems(1)] Cons.prems(3) obtain b where b: "stamp gd d = Inr b"
    by auto
  note step = appendNewer_step [OF Cons.prems(2) Cons.prems(3) b, of rest]
  show ?case
  proof (cases "a < b")
    case True
    from Cons.prems(1) True step obtain t u where
      tu: "py_getitem d ''timestamp'' = Inr t" "py_getitem d ''uniques'' = Inr u"
        "appendNewer gd (JList (xs @ [JDict [(''timestamp'', t), (''uniques'', u)]])) rest = Inr merged"
      by (auto split: sum.splits)
    let ?s = "JDict [(''timestamp'', t), (''uniques'', u)]"
    have sb: "stamp gd (last (xs @ [?s])) = Inr b"
      using b tu(1) by (simp add: stamp_def)
    from Cons.IH [OF tu(3) _ sb] obtain ys m where
      r: "merged = JList ((xs @ [?s]) @ ys)" "stamp gd (last ((xs @ [?s]) @ ys)) = Inr m" "b \<le> m"
        "\<forall>d\<in>set rest. \<exists>b. stamp gd d = Inr b \<and> b \<le> m"
      by auto
    show ?thesis
      using r True b by (intro exI [of _ "?s # ys"] exI [of _ m]) auto
  next
    case False
    with Cons.prems(1) step have "appendNewer gd (JList xs) rest = Inr merged" by simp
    from Cons.IH [OF this Cons.prems(2) Cons.prems(3)] obtain ys m where
      r: "merged = JList (xs @ ys)" "stamp gd (last (xs @ ys)) = Inr m" "a \<le> m"
        "\<forall>d\<in>set rest. \<exists>b. stamp gd d = Inr b \<and> b \<le> m"
      by auto
    show ?thesis
      using r False b by (intro exI [of _ ys] exI [of _ m]) auto
  qed
qed

lemma appendNewer_fixed:
  assumes "xs \<noteq> []" and "stamp gd (last xs) = Inr m"
    and "\<forall>d\<in>set days. \<exists>b. stamp gd d = Inr b \<and> b \<le> m"
  shows "appendNewer gd (JList xs) days = Inr (JList xs)"
  using assms
proof (induction days)
  case Nil
  then show ?case by simp
next
  case (Cons d rest)
  from Cons.prems(3) obtain b where b: "stamp gd d = Inr b" "b \<le> m" by auto
  show ?case
    using appendNewer_step [OF Cons.prems(1) Cons.prems(2) b(1), of rest] b(2) Cons by simp
qed

lemma appendNewer_idem:
  assumes "appendNewer gd start days = Inr merged"
  shows "appendNewer gd merged days = Inr merged"
proof (cases days)
  case Nil
  then show ?thesis by simp
next
  case (Cons d rest)
  from appendNewer_first [OF assms [unfolded Cons]] obtain xs a where
    s: "start = JList xs" "xs \<noteq> []" "stamp gd (last xs) = Inr a" by blast
  from appendNewer_bound [OF assms [unfolded s(1)] s(2) s(3)] obtain ys m where
    r: "merged = JList (xs @ ys)" "stamp gd (last (xs @ ys)) = Inr m"
      "\<forall>d\<in>set days. \<exists>b. stamp gd d = Inr b \<and> b \<le> m"
    by blast
  have "xs @ ys \<noteq> []" using s(2) by simp
  from appendNewer_fixed [OF this r(2) r(3)] show ?thesis using r(1) by simp
qed

lemma stamp_lt_trans: "stamp_lt gd x y \<Longrightarrow> stamp_lt gd y z \<Longrightarrow> stamp_lt gd x z"
  by (auto simp add: stamp_lt_def split: sum.splits)

lemma ascending_snoc:
  assumes "ascending gd xs" and "xs \<noteq> []" and "stamp_lt gd (last xs) s"
  shows "ascending gd (xs @ [s])"
proof -
  have "stamp_lt gd x s" if "x \<in> set xs" for x
  proof (cases "x = last xs")
    case True
    then show ?thesis using assms(3) by simp
  next
    case False
    have "xs = butlast xs @ [last xs]" using assms(2) by simp
    then have "sorted_wrt (stamp_lt gd) (butlast xs @ [last xs])" using assms(1)
      by (simp add: ascending_def)
    moreover have "x \<in> set (butlast xs)"
      using that False assms(2) by (metis append_butlast_last_id insert_iff list.simps(15) rotate1.simps(2) set_rotate1)
    ultimately have "stamp_lt gd x (last xs)" by (simp add: sorted_wrt_append)
    then show ?thesis using assms(3) stamp_lt_trans by blast
  qed
  then show ?thesis using assms(1) by (simp add: ascending_def sorted_wrt_append)
qed

lemma appendNewer_ascending:
  assumes "appendNewer gd (JList xs) days = Inr merged" and "ascending gd xs"
  shows "\<exists>ys. merged = JList (xs @ ys) \<and> ascending gd (xs @ ys)"
  using assms
proof (induction days arbitrary: xs)
  case Nil
  then show ?case by auto
next
  case (Cons d rest)
  from appendNewer_first [OF Cons.prems(1)] obtain a b where
    s: "xs \<noteq> []" "stamp gd (last xs) = Inr a" "stamp gd d = Inr b" by auto
  note step = appendNewer_step [OF s, of rest]
  show ?case
  proof (cases "a < b")
    case True
    from Cons.prems(1) True step obtain t u where
      tu: "py_getitem d ''timestamp'' = Inr t" "py_getitem d ''uniques'' = Inr u"
        "appendNewer gd (JList (xs @ [JDict [(''timestamp'', t), (''uniques'', u)]])) rest = Inr merged"
      by (auto split: sum.splits)
    let ?s = "JDict [(''timestamp'', t), (''uniques'', u)]"
    have "stamp gd ?s = Inr b" using s(3) tu(1) by (simp add: stamp_def)
    then have "stamp_lt gd (last xs) ?s" using s(2) True by (simp add: stamp_lt_def)
    from ascending_snoc [OF Cons.prems(2) s(1) this] Cons.IH [OF tu(3)]
    obtain ys where "merged = JList ((xs @ [?s]) @ ys)" "ascending gd ((xs @ [?s]) @ ys)" by blast
    then show ?thesis by (intro exI [of _ "?s # ys"]) simp
  next
    case False
    with Cons.prems(1) step have "appendNewer gd (JList xs) rest = Inr merged" by simp
    from Cons.IH [OF this Cons.prems(2)] show ?thesis .
  qed
qed

subsection \<open>A merge as a whole\<close>

lemma merge_cases:
  obtains (fail) e where "fst (mergeDataWithJson gd srv repo kind w) = Inl e"
      "ledger_file (snd (mergeDataWithJson gd srv repo kind w)) = ledger_file w"
  | (ok) ents inner traffic daysJson days merged where
      "fst (mergeDataWithJson gd srv repo kind w) = Inr ()"
      "ledger_file w = None \<and> ents = [] \<or> ledger_file w = Some (JDict ents)"
      "map_of ents repo = None \<and> inner = [] \<or> map_of ents repo = Some (JDict inner)"
      "fst (getRepoTraffic srv repo kind w) = Inr traffic"
      "py_getitem traffic kind = Inr daysJson" "py_iter daysJson = Inr days"
      "appendNewer gd (startSeries inner kind) days = Inr merged"
      "ledger_file (snd (mergeDataWithJson gd srv repo kind w))
         = Some (JDict (AList.update repo (JDict (AList.update kind merged inner)) ents))"
proof (cases "mergeDataWithJson gd srv repo kind w")
  case (Pair r w')
  show thesis
  proof (cases r)
    case (Inl e)
    then show thesis using fail [of e] merge_fail_keeps [of gd srv repo kind w e w'] Pair by simp
  next
    case (Inr u)
    with Pair have p: "mergeDataWithJson gd srv repo kind w = (Inr u, w')" by simp
    from merge_okE [OF p] obtain ents inner traffic daysJson days merged where
      "ledger_file w = None \<and> ents = [] \<or> ledger_file w = Some (JDict ents)"
      "map_of ents repo = None \<and> inner = [] \<or> map_of ents repo = Some (JDict inner)"
      "fst (getRepoTraffic srv repo kind w) = Inr traffic"
      "py_getitem traffic kind = Inr daysJson" "py_iter daysJson = Inr days"
      "appendNewer gd (startSeries inner kind) days = Inr merged"
      "ledger_file w' = Some (JDict (AList.update repo (JDict (AList.update kind merged inner)) ents))"
      by blast
    then show thesis using ok [of ents inner traffic daysJson days merged] p by simp
  qed
qed

lemma merge_idem:
  "ledger_file (snd (mergeDataWithJson gd srv repo kind (snd (mergeDataWithJson gd srv repo kind w))))
     = ledger_file (snd (mergeDataWithJson gd srv repo kind w))"
proof -
  let ?w1 = "snd (mergeDataWithJson gd srv repo kind w)"
  show ?thesis
  proof (cases rule: merge_cases [of gd srv repo kind w])
    case (fail e)
    show ?thesis
    proof (cases rule: merge_cases [of gd srv repo kind ?w1])
      case (fail e')
      then show ?thesis by simp
    next
      case (ok ents inner traffic daysJson days merged)
      have "fst (getRepoTraffic srv repo kind w) = Inr traffic"
        using ok(4) getRepoTraffic_fst [of srv repo kind w ?w1] by simp
      from merge_okI [OF _ ok(3) this ok(5) ok(6) ok(7), of w] ok(2) fail(2)
      have "fst (mergeDataWithJson gd srv repo kind w) = Inr ()" by simp
      with fail(1) show ?thesis by simp
    qed
  next
    case (ok ents inner traffic daysJson days merged)
    let ?inner1 = "AList.update kind merged inner"
    let ?ents1 = "AList.update repo (JDict ?inner1) ents"
    have f1: "ledger_file ?w1 = None \<and> ?ents1 = [] \<or> ledger_file ?w1 = Some (JDict ?ents1)"
      using ok(8) by simp
    have i1: "map_of ?ents1 repo = None \<and> ?inner1 = [] \<or> map_of ?ents1 repo = Some (JDict ?inner1)"
      by (simp add: update_conv')
    have s1: "startSeries ?inner1 kind = merged"
      by (simp add: startSeries_def update_conv')
    have m1: "appendNewer gd (startSeries ?inner1 kind) days = Inr merged"
      using appendNewer_idem [OF ok(7)] s1 by simp
    from merge_okI [OF f1 i1 ok(4) ok(5) ok(6) m1]
    show ?thesis using ok(8) by simp
  qed
qed

lemma merge_frame_repo:
  assumes "r \<noteq> repo"
  shows "ledger_repo (ledger_file (snd (mergeDataWithJson gd srv repo kind w))) r
           = ledger_repo (ledger_file w) r"
proof (cases rule: merge_cases [of gd srv repo kind w])
  case (fail e)
  then show ?thesis by simp
next
  case (ok ents inner traffic daysJson days merged)
  then show ?thesis using assms by (auto simp add: ledger_repo_def update_conv')
qed

lemma merge_frame_kind:
  assumes "k \<noteq> kind"
  shows "ledger_entry (ledger_file (snd (mergeDataWithJson gd srv repo kind w))) repo k
           = ledger_entry (ledger_file w) repo k"
proof (cases rule: merge_cases [of gd srv repo kind w])
  case (fail e)
  then show ?thesis by simp
next
  case (ok ents inner traffic daysJson days merged)
  then show ?thesis using assms by (auto simp add: ledger_entry_def ledger_repo_def update_conv')
qed

lemma list_all_update:
  assumes "list_all P al" and "P (k, v)"
  shows "list_all P (AList.update k v al)"
  using assms by (induction al) auto

lemma appendNewer_non_list:
  assumes "appendNewer gd start days = Inr merged" and "\<forall>xs. start \<noteq> JList xs"
  shows "merged = start"
proof (cases days)
  case Nil
  then show ?thesis using assms by simp
next
  case (Cons d rest)
  from appendNewer_first [OF assms(1) [unfolded Cons]] assms(2) show ?thesis by blast
qed

lemma appendNewer_series:
  assumes "appendNewer gd start days = Inr merged" and "seriesAscending gd start"
  shows "seriesAscending gd merged
       \<and> (\<forall>xs. start = JList xs \<longrightarrow> (\<exists>ys. merged = JList (xs @ ys)))"
proof (cases "\<exists>xs. start = JList xs")
  case True
  then obtain xs where xs: "start = JList xs" by blast
  then have "ascending gd xs" using assms(2) by (simp add: seriesAscending_def)
  from appendNewer_ascending [OF assms(1) [unfolded xs] this] xs show ?thesis
    by (auto simp add: seriesAscending_def)
next
  case False
  then have "merged = start" using appendNewer_non_list [OF assms(1)] by blast
  then show ?thesis using assms(2) False by simp
qed

lemma startSeries_ascending:
  assumes "list_all (\<lambda>ks. seriesAscending gd (snd ks)) inner"
  shows "seriesAscending gd (startSeries inner kind)"
proof (cases "map_of inner kind")
  case None
  then show ?thesis by (simp add: startSeries_def seriesAscending_def ascending_def)
next
  case (Some s)
  then have "(kind, s) \<in> set inner" by (rule map_of_SomeD)
  then show ?thesis using assms Some by (auto simp add: startSeries_def list_all_iff)
qed

lemma merge_ascending:
  assumes "ledgerAscending gd (ledger_file w)"
  shows "ledgerAscending gd (ledger_file (snd (mergeDataWithJson gd srv repo kind w)))"
proof (cases rule: merge_cases [of gd srv repo kind w])
  case (fail e)
  then show ?thesis using assms by simp
next
  case (ok ents inner traffic daysJson days merged)
  have ents: "list_all (\<lambda>re. repoAscending gd (snd re)) ents"
    using ok(2) assms by (auto simp add: ledgerAscending_def)
  have inner: "list_all (\<lambda>ks. seriesAscending gd (snd ks)) inner"
  proof -
    from ok(3) show ?thesis
    proof
      assume "map_of ents repo = None \<and> inner = []"
      then show ?thesis by simp
    next
      assume "map_of ents repo = Some (JDict inner)"
      then have "(repo, JDict inner) \<in> set ents" by (rule map_of_SomeD)
      then have "repoAscending gd (JDict inner)" using ents by (auto simp add: list_all_iff)
      then show ?thesis by (simp add: repoAscending_def)
    qed
  qed
  have "seriesAscending gd merged"
    using appendNewer_series [OF ok(7) startSeries_ascending [OF inner]] by simp
  then have "list_all (\<lambda>ks. seriesAscending gd (snd ks)) (AList.update kind merged inner)"
    using inner by (intro list_all_update) simp_all
  then have "repoAscending gd (JDict (AList.update kind merged inner))"
    by (simp add: repoAscending_def)
  then have "list_all (\<lambda>re. repoAscending gd (snd re))
               (AList.update repo (JDict (AList.update kind merged inner)) ents)"
    using ents by (intro list_all_update) simp_all
  then show ?thesis using ok(8) by (simp add: ledgerAscending_def)
qed

lemma ledger_entry_ascending:
  assumes "ledgerAscending gd doc" and "ledger_entry doc r k = Some s"
  shows "seriesAscending gd s"
proof -
  from assms(2) obtain ents inner where
    e: "doc = Some (JDict ents)" "map_of ents r = Some (JDict inner)" "map_of inner k = Some s"
    by (auto simp add: ledger_entry_def ledger_repo_def split: option.splits json.splits)
  from e(2) have "(r, JDict inner) \<in> set ents" by (rule map_of_SomeD)
  then have "repoAscending gd (JDict inner)" using assms(1) e(1)
    by (auto simp add: ledgerAscending_def list_all_iff)
  moreover from e(3) have "(k, s) \<in> set inner" by (rule map_of_SomeD)
  ultimately show ?thesis by (auto simp add: repoAscending_def list_all_iff)
qed

lemma merge_extends:
  assumes "ledgerAscending gd (ledger_file w)"
    and "ledger_entry (ledger_file w) r k = Some (JList xs)"
  shows "\<exists>ys. ledger_entry (ledger_file (snd (mergeDataWithJson gd srv repo kind w))) r k
                = Some (JList (xs @ ys))"
proof (cases "r = repo \<and> k = kind")
  case False
  then have "ledger_entry (ledger_file (snd (mergeDataWithJson gd srv repo kind w))) r k
               = ledger_entry (ledger_file w) r k"
    using merge_frame_repo [of r repo gd srv kind w] merge_frame_kind [of k kind gd srv repo w]
    by (cases "r = repo") (auto simp add: ledger_entry_def)
  then show ?thesis using assms(2) by simp
next
  case True
  show ?thesis
  proof (cases rule: merge_cases [of gd srv repo kind w])
    case (fail e)
    then show ?thesis using assms(2) by simp
  next
    case (ok ents inner traffic daysJson days merged)
    have s: "startSeries inner kind = JList xs"
      using assms(2) True ok(2) ok(3)
      by (auto simp add: ledger_entry_def ledger_repo_def startSeries_def)
    have "seriesAscending gd (JList xs)"
      using ledger_entry_ascending [OF assms] .
    from appendNewer_series [OF ok(7) [unfolded s] this] obtain ys where "merged = JList (xs @ ys)"
      by blast
    then show ?thesis using ok(8) True
      by (auto simp add: ledger_entry_def ledger_repo_def update_conv')
  qed
qed

lemma runMerges_ascending:
  assumes "ledgerAscending gd (ledger_file w)"
  shows "ledgerAscending gd (ledger_file (runMerges gd merges w))
       \<and> (\<forall>r k xs. ledger_entry (ledger_file w) r k = Some (JList xs)
            \<longrightarrow> (\<exists>ys. ledger_entry (ledger_file (runMerges gd merges w)) r k = Some (JList (xs @ ys))))"
  using assms
proof (induction merges arbitrary: w)
  case Nil
  then show ?case by simp
next
  case (Cons m merges)
  obtain srv repo kind where m: "m = (srv, repo, kind)" by (cases m)
  let ?w1 = "snd (mergeDataWithJson gd srv repo kind w)"
  have a1: "ledgerAscending gd (ledger_file ?w1)"
    using merge_ascending [OF Cons.prems] .
  note ih = Cons.IH [OF a1]
  have "\<exists>ys. ledger_entry (ledger_file (runMerges gd merges ?w1)) r k = Some (JList (xs @ ys))"
    if "ledger_entry (ledger_file w) r k = Some (JList xs)" for r k xs
  proof -
    from merge_extends [OF Cons.prems that, of srv repo kind] obtain ys where
      "ledger_entry (ledger_file ?w1) r k = Some (JList (xs @ ys))" by blast
    with ih obtain zs where
      "ledger_entry (ledger_file (runMerges gd merges ?w1)) r k = Some (JList ((xs @ ys) @ zs))"
      by blast
    then show ?thesis by (intro exI [of _ "ys @ zs"]) simp
  qed
  then show ?case using ih m by simp
qed

subsection \<open>The merge of the spec\<close>

lemma freshOk_D:
  assumes "freshOk gd d"
  obtains t u b where "py_getitem d ''timestamp'' = Inr t" "gd t = Inr b"
    "py_getitem d ''uniques'' = Inr u" "stamp gd d = Inr b"
    "storedSample d = JDict [(''timestamp'', t), (''uniques'', u)]"
  using assms
  by (auto simp add: freshOk_def stamp_def storedSample_def split: sum.splits)

lemma appendNewer_spec:
  assumes "xs \<noteq> []" and "stamp gd (last xs) = Inr a" and "\<forall>d\<in>set days. freshOk gd d"
  shows "appendNewer gd (JList xs) days
           = Inr (JList (spec_mergeTraffic (timeOf gd) xs (map storedSample days)))"
  using assms
proof (induction days arbitrary: xs a)
  case Nil
  then show ?case by simp
next
  case (Cons d rest)
  from Cons.prems(3) have "freshOk gd d" by simp
  from freshOk_D [OF this] obtain t u b where
    d: "py_getitem d ''timestamp'' = Inr t" "gd t = Inr b" "py_getitem d ''uniques'' = Inr u"
      "stamp gd d = Inr b" "storedSample d = JDict [(''timestamp'', t), (''uniques'', u)]"
    by blast
  have rest: "\<forall>d\<in>set rest. freshOk gd d" using Cons.prems(3) by simp
  have ta: "timeOf gd (last xs) = a" using Cons.prems(2) by (simp add: timeOf_def)
  have tb: "timeOf gd (storedSample d) = b" using d by (simp add: timeOf_def stamp_def)
  note step = appendNewer_step [OF Cons.prems(1) Cons.prems(2) d(4), of rest]
  show ?case
  proof (cases "a < b")
    case True
    have "stamp gd (last (xs @ [storedSample d])) = Inr b" using d by (simp add: stamp_def)
    from Cons.IH [OF _ this rest] show ?thesis
      using True step d ta tb by simp
  next
    case False
    from Cons.IH [OF Cons.prems(1) Cons.prems(2) rest] show ?thesis
      using False step ta tb by simp
  qed
qed

lemma merge_spec:
  assumes shape: "entryMissing (ledger_file w) repo kind \<and> stored = [seedSample]
            \<or> ledger_entry (ledger_file w) repo kind = Some (JList stored) \<and> stored \<noteq> []"
    and lst: "stamp gd (last stored) = Inr a"
    and served: "fst (getRepoTraffic srv repo kind w) = Inr traffic"
      "py_getitem traffic kind = Inr (JList freshSamples)"
    and fresh: "\<forall>d\<in>set freshSamples. freshOk gd d"
  shows "fst (mergeDataWithJson gd srv repo kind w) = Inr ()
       \<and> ledger_entry (ledger_file (snd (mergeDataWithJson gd srv repo kind w))) repo kind
           = Some (JList (spec_mergeTraffic (timeOf gd) stored (map storedSample freshSamples)))"
proof -
  from shape obtain ents inner where
    e: "ledger_file w = None \<and> ents = [] \<or> ledger_file w = Some (JDict ents)"
       "map_of ents repo = None \<and> inner = [] \<or> map_of ents repo = Some (JDict inner)"
       "startSeries inner kind = JList stored" "stored \<noteq> []"
  proof
    assume m: "entryMissing (ledger_file w) repo kind \<and> stored = [seedSample]"
    show thesis
    proof (cases "ledger_file w")
      case None
      then show ?thesis using that [of "[]" "[]"] m by (simp add: startSeries_def)
    next
      case (Some doc)
      with m obtain ents where ents: "doc = JDict ents"
        by (cases doc) (auto simp add: entryMissing_def)
      show ?thesis
      proof (cases "map_of ents repo")
        case None
        then show ?thesis using that [of ents "[]"] m Some ents by (simp add: startSeries_def)
      next
        case (Some entry)
        with m ents \<open>ledger_file w = Some doc\<close> obtain inner where
          "entry = JDict inner" "map_of inner kind = None"
          by (cases entry) (auto simp add: entryMissing_def)
        then show ?thesis using that [of ents inner] m Some ents \<open>ledger_file w = Some doc\<close>
          by (simp add: startSeries_def)
      qed
    qed
  next
    assume s: "ledger_entry (ledger_file w) repo kind = Some (JList stored) \<and> stored \<noteq> []"
    then obtain ents inner where
      "ledger_file w = Some (JDict ents)" "map_of ents repo = Some (JDict inner)"
      "map_of inner kind = Some (JList stored)"
      by (auto simp add: ledger_entry_def ledger_repo_def split: option.splits json.splits)
    then show thesis using that [of ents inner] s by (simp add: startSeries_def)
  qed
  have m: "appendNewer gd (startSeries inner kind) freshSamples
             = Inr (JList (spec_mergeTraffic (timeOf gd) stored (map storedSample freshSamples)))"
    using appendNewer_spec [OF e(4) lst fresh] e(3) by simp
  have it: "py_iter (JList freshSamples) = Inr freshSamples" by simp
  from merge_okI [OF e(1) e(2) served(1) served(2) it m]
  show ?thesis by (simp add: ledger_entry_def ledger_repo_def update_conv')
qed

subsection \<open>Totals\<close>

lemma sumUniques_sum:
  assumes "map (\<lambda>s. py_getitem s ''uniques'') samples = map (\<lambda>u. Inr (JInt u)) us"
  shows "sumUniques n samples = Inr (n + sum_list us)"
  using assms
proof (induction samples arbitrary: n us)
  case Nil
  then show ?case by simp
next
  case (Cons s samples)
  then obtain u us' where us: "us = u # us'" by (cases us) auto
  with Cons.prems have "py_getitem s ''uniques'' = Inr (JInt u)"
    "map (\<lambda>s. py_getitem s ''uniques'') samples = map (\<lambda>u. Inr (JInt u)) us'" by simp_all
  then show ?case using Cons.IH [of us' "n + u"] us by simp
qed

lemma getJsonData_sum_list:
  assumes "ledger_entry (ledger_file w) repo kind = Some (JList samples)"
    and "map (\<lambda>s. py_getitem s ''uniques'') samples = map (\<lambda>u. Inr (JInt u)) us"
  shows "getJsonData repo kind w = Inr (sum_list us)"
proof -
  from assms(1) obtain ents inner where
    "ledger_file w = Some (JDict ents)" "map_of ents repo = Some (JDict inner)"
    "map_of inner kind = Some (JList samples)"
    by (auto simp add: ledger_entry_def ledger_repo_def split: option.splits json.splits)
  then show ?thesis using sumUniques_sum [OF assms(2), of 0] by (simp add: getJsonData_def)
qed

subsection \<open>The loop over the forks\<close>

lemma aliveForksLoop_step:
  assumes "aliveForksLoop gd clock repoData lifespan enableNewer (fork # rest) acc w = (Inr alive, w')"
  shows "\<exists>p s. pushedAt gd fork = Inr p \<and> pushedAt gd repoData = Inr s
           \<and> aliveForksLoop gd clock repoData lifespan enableNewer rest
                (if spec_include p s (clock (clock_reads w)) lifespan enableNewer
                 then acc @ [fork] else acc)
                (w\<lparr>clock_reads := Suc (clock_reads w)\<rparr>) = (Inr alive, w')"
  using assms
  by (auto simp add: pushedAt_def timedelta_weeks_def datetime_add_def datetime_now_def
        spec_include_def spec_isAlive_def week_us_def Let_def
      split: sum.splits if_splits)

lemma aliveForksLoop_spec:
  assumes "aliveForksLoop gd clock repoData lifespan enableNewer forks acc w = (Inr alive, w')"
  shows "alive = acc @ map fst (filter (\<lambda>(fork, i). forkIncluded gd repoData lifespan enableNewer (clock i) fork)
                         (zip forks [clock_reads w..<clock_reads w + length forks]))
       \<and> (\<forall>fork\<in>set forks. \<exists>p s. pushedAt gd fork = Inr p \<and> pushedAt gd repoData = Inr s)"
  using assms
proof (induction forks arbitrary: acc w)
  case Nil
  then show ?case by simp
next
  case (Cons fork rest)
  from aliveForksLoop_step [OF Cons.prems] obtain p s where
    ps: "pushedAt gd fork = Inr p" "pushedAt gd repoData = Inr s"
      "aliveForksLoop gd clock repoData lifespan enableNewer rest
                (if spec_include p s (clock (clock_reads w)) lifespan enableNewer
                 then acc @ [fork] else acc)
                (w\<lparr>clock_reads := Suc (clock_reads w)\<rparr>) = (Inr alive, w')"
    by blast
  have inc: "forkIncluded gd repoData lifespan enableNewer (clock (clock_reads w)) fork
               = spec_include p s (clock (clock_reads w)) lifespan enableNewer"
    using ps by (simp add: forkIncluded_def)
  have upt: "[clock_reads w..<clock_reads w + length (fork # rest)]
               = clock_reads w # [Suc (clock_reads w)..<Suc (clock_reads w) + length rest]"
    using upt_conv_Cons [of "clock_reads w" "clock_reads w + Suc (length rest)"] by simp
  from Cons.IH [OF ps(3)] show ?case
    unfolding upt using ps inc by auto
qed

lemma fetchPages_keeps:
  "fetchPages srv apiUrl pages iterable w = (res, w') \<Longrightarrow> clock_reads w' = clock_reads w"
proof (induction pages arbitrary: iterable w)
  case Nil
  then show ?case by simp
next
  case (Cons p pages)
  obtain r w1 where g: "getGithubApiRequest srv (apiUrl @ ''?per_page=100&page='' @ str_int p) True w = (r, w1)"
    by (cases "getGithubApiRequest srv (apiUrl @ ''?per_page=100&page='' @ str_int p) True w")
  have c: "clock_reads w1 = clock_reads w"
    using getGithubApiRequest_keeps [of srv "apiUrl @ ''?per_page=100&page='' @ str_int p" True w] g by simp
  from Cons.prems show ?case
    unfolding fetchPages.simps g
    using Cons.IH c by (auto split: sum.splits apiresult.splits)
qed

lemma getListOfRepos_keeps:
  assumes "getListOfRepos srv repoName context w = (res, w')"
  shows "clock_reads w' = clock_reads w"
proof -
  obtain r w1 where g: "getGithubApiRequest srv ((''repos/'' @ repoName @ ''/'' @ context) @ ''?per_page=100'') False w = (r, w1)"
    by (cases "getGithubApiRequest srv ((''repos/'' @ repoName @ ''/'' @ context) @ ''?per_page=100'') False w")
  have c: "clock_reads w1 = clock_reads w"
    using getGithubApiRequest_keeps [of srv "(''repos/'' @ repoName @ ''/'' @ context) @ ''?per_page=100''" False w] g by simp
  from assms show ?thesis
    unfolding getListOfRepos_def getPaginatedGithubApiRequest_def g
    using c by (auto simp add: Let_def logPrint_def split: sum.splits if_splits dest!: fetchPages_keeps)
qed

lemma getListOfAliveForks_spec:
  assumes "getListOfAliveForks gd clock srv repoData lifespan enableNewer w = (Inr (aliveRepos, forkedRepos), w')"
  shows "\<exists>fullName w1 forks.
           py_getitem repoData ''full_name'' = Inr (JStr fullName)
         \<and> getListOfRepos srv fullName ''forks'' w = (Inr forkedRepos, w1)
         \<and> py_iter forkedRepos = Inr forks
         \<and> aliveRepos = JList (map fst (filter (\<lambda>(fork, i). forkIncluded gd repoData lifespan enableNewer (clock i) fork)
                         (zip forks [clock_reads w..<clock_reads w + length forks])))
         \<and> (\<forall>fork\<in>set forks. \<exists>p s. pushedAt gd fork = Inr p \<and> pushedAt gd repoData = Inr s)"
proof -
  from assms obtain fullName w1 forks alive where
    st: "py_getitem repoData ''full_name'' = Inr (JStr fullName)"
      "getListOfRepos srv fullName ''forks'' w = (Inr forkedRepos, w1)"
      "py_iter forkedRepos = Inr forks"
      "aliveForksLoop gd clock repoData lifespan enableNewer forks [] w1 = (Inr alive, w')"
      "aliveRepos = JList alive"
    by (auto simp add: getListOfAliveForks_def split: sum.splits json.splits prod.splits)
  have "clock_reads w1 = clock_reads w" using getListOfRepos_keeps [OF st(2)] .
  with aliveForksLoop_spec [OF st(4)] st show ?thesis by auto
qed

subsection \<open>Lists\<close>

lemma filter_zip_fst:
  "length ys = length xs \<Longrightarrow> map fst (filter (\<lambda>(x, i). P x) (zip xs ys)) = filter P xs"
  by (induction xs ys rule: list_induct2') auto

lemma stamp_lt_neq: "stamp_lt gd x y \<Longrightarrow> stamp gd x \<noteq> stamp gd y"
  by (auto simp add: stamp_lt_def split: sum.splits)

lemma ascending_distinct: "ascending gd xs \<Longrightarrow> distinct (map (stamp gd) xs)"
proof (induction xs)
  case Nil
  then show ?case by simp
next
  case (Cons x xs)
  then have "\<forall>y\<in>set xs. stamp_lt gd x y" and "ascending gd xs"
    by (simp_all add: ascending_def)
  then show ?case using Cons.IH stamp_lt_neq by fastforce
qed

lemma upto_from_one: "[1..max 1 m] = 1 # [2..m]"
proof (cases "1 \<le> m")
  case True
  then have "max 1 m = m" by simp
  then show ?thesis using True upto_rec1 [of 1 m] by simp
next
  case False
  then have "max 1 m = 1" by simp
  then show ?thesis using False by simp
qed


lemma aliveForksLoop_returns:
  assumes "timedelta_weeks lifespan = Inr delta" and "pushedAt gd repoData = Inr s"
    and "\<forall>fork\<in>set forks. \<exists>p. pushedAt gd fork = Inr p \<and> 0 \<le> p + delta \<and> p + delta \<le> datetime_max"
  shows "\<exists>alive. aliveForksLoop gd clock repoData lifespan enableNewer forks acc w
           = (Inr alive, w\<lparr>clock_reads := clock_reads w + length forks\<rparr>)"
  using assms(3)
proof (induction forks arbitrary: acc w)
  case Nil
  then show ?case by simp
next
  case (Cons fork rest)
  then obtain p where p: "pushedAt gd fork = Inr p" "0 \<le> p + delta" "p + delta \<le> datetime_max"
    by auto
  have rest: "\<forall>fork\<in>set rest. \<exists>p. pushedAt gd fork = Inr p \<and> 0 \<le> p + delta \<and> p + delta \<le> datetime_max"
    using Cons.prems by simp
  from p(1) obtain pv where pv: "py_getitem fork ''pushed_at'' = Inr pv" "gd pv = Inr p"
    by (auto simp add: pushedAt_def split: sum.splits)
  from assms(2) obtain sv where sv: "py_getitem repoData ''pushed_at'' = Inr sv" "gd sv = Inr s"
    by (auto simp add: pushedAt_def split: sum.splits)
  let ?acc = "if (p + delta > clock (clock_reads w) \<and> p > s) \<or> (p + delta > clock (clock_reads w) \<and> \<not> enableNewer)
              then acc @ [fork] else acc"
  from Cons.IH [OF rest, of ?acc "w\<lparr>clock_reads := Suc (clock_reads w)\<rparr>"]
  show ?case
    using pv sv assms(1) p(2,3) by (simp add: datetime_add_def datetime_now_def Let_def)
qed

text \<open>
  \<^verbatim>\<open>getListOfAliveForks\<close> returns whenever the listing is a list, every push time parses,
  and no date it adds up lies beyond what a \<^verbatim>\<open>datetime\<close> holds.
\<close>

lemma getListOfAliveForks_returns:
  assumes "py_getitem repoData ''full_name'' = Inr (JStr fullName)"
    and "getListOfRepos srv fullName ''forks'' w = (Inr (JList forks), w1)"
    and "timedelta_weeks lifespan = Inr delta" and "pushedAt gd repoData = Inr s"
    and "\<forall>fork\<in>set forks. \<exists>p. pushedAt gd fork = Inr p \<and> 0 \<le> p + delta \<and> p + delta \<le> datetime_max"
  shows "\<exists>alive. getListOfAliveForks gd clock srv repoData lifespan enableNewer w
           = (Inr (JList alive, JList forks), w1\<lparr>clock_reads := clock_reads w1 + length forks\<rparr>)"
proof -
  from aliveForksLoop_returns [OF assms(3) assms(4) assms(5), of clock enableNewer "[]" w1]
  obtain alive where "aliveForksLoop gd clock repoData lifespan enableNewer forks [] w1
           = (Inr alive, w1\<lparr>clock_reads := clock_reads w1 + length forks\<rparr>)"
    by blast
  then show ?thesis using assms(1) assms(2) by (simp add: getListOfAliveForks_def)
qed

section \<open>The claims\<close>

subsection \<open>Alive forks\<close>

text \<open>
  Claim C1. Let \<^verbatim>\<open>getListOfRepos\<close> give the list \<open>forks\<close> for the source, let the push time
  of the source and of every fork parse, and let no date that is added up lie beyond what
  a \<^verbatim>\<open>datetime\<close> holds. Then \<^verbatim>\<open>getListOfAliveForks\<close> returns, with that listing as its
  second result, and its first result is the listing filtered, in order, by the spec's
  predicate \<open>(alive AND newer) OR (alive AND NOT requireNewerThanSource)\<close>, taken for each
  fork at the reading of the clock made for it; with one and the same reading \<open>now\<close> for
  every fork it is the filter of the listing by the predicate at \<open>now\<close>. For a fork pushed
  at \<open>p\<close> the predicate is \<open>(p + lifespan weeks > now AND p > source) OR
  (p + lifespan weeks > now AND NOT enableNewer)\<close>, in microseconds: with \<open>enableNewer\<close> it
  is \<open>alive AND newer\<close>, so a fork that is alive but not newer is left out, and without it
  it is \<open>alive\<close> alone.
\<close>

theorem getListOfAliveForks_asymmetric_filter:
  assumes "py_getitem repoData ''full_name'' = Inr (JStr fullName)"
    and "getListOfRepos srv fullName ''forks'' w = (Inr (JList forks), w1)"
    and "pushedAt gd repoData = Inr sourcePushedAt"
    and "timedelta_weeks lifespan = Inr delta"
    and "\<forall>fork\<in>set forks. \<exists>p. pushedAt gd fork = Inr p \<and> 0 \<le> p + delta \<and> p + delta \<le> datetime_max"
  shows "getListOfAliveForks gd clock srv repoData lifespan enableNewer w
           = (Inr (JList (map fst (filter (\<lambda>(fork, i). forkIncluded gd repoData lifespan enableNewer (clock i) fork)
                                     (zip forks [clock_reads w..<clock_reads w + length forks]))),
                   JList forks),
              w1\<lparr>clock_reads := clock_reads w + length forks\<rparr>)
       \<and> ((\<forall>i. clock i = now) \<longrightarrow>
            fst (getListOfAliveForks gd clock srv repoData lifespan enableNewer w)
              = Inr (JList (filter (forkIncluded gd repoData lifespan enableNewer now) forks), JList forks))
       \<and> (\<forall>fork\<in>set forks. \<forall>p. pushedAt gd fork = Inr p \<longrightarrow>
            forkIncluded gd repoData lifespan enableNewer now fork
              = ((now < p + lifespan * 604800000000 \<and> sourcePushedAt < p)
                 \<or> (now < p + lifespan * 604800000000 \<and> \<not> enableNewer)))
       \<and> spec_include forkPushedAt sourcePushedAt now lifespan True
            = (spec_isAlive forkPushedAt now lifespan \<and> sourcePushedAt < forkPushedAt)
       \<and> spec_include forkPushedAt sourcePushedAt now lifespan False
            = spec_isAlive forkPushedAt now lifespan"
proof -
  let ?kept = "map fst (filter (\<lambda>(fork, i). forkIncluded gd repoData lifespan enableNewer (clock i) fork)
                          (zip forks [clock_reads w..<clock_reads w + length forks]))"
  have k: "clock_reads w1 = clock_reads w" using getListOfRepos_keeps [OF assms(2)] .
  from getListOfAliveForks_returns [OF assms(1) assms(2) assms(4) assms(3) assms(5), of clock enableNewer]
  obtain alive where
    r: "getListOfAliveForks gd clock srv repoData lifespan enableNewer w
          = (Inr (JList alive, JList forks), w1\<lparr>clock_reads := clock_reads w1 + length forks\<rparr>)"
    by blast
  from getListOfAliveForks_spec [OF r] have "JList alive = JList ?kept" by auto
  with r k have a: "getListOfAliveForks gd clock srv repoData lifespan enableNewer w
          = (Inr (JList ?kept, JList forks), w1\<lparr>clock_reads := clock_reads w + length forks\<rparr>)"
    by simp
  have c: "fst (getListOfAliveForks gd clock srv repoData lifespan enableNewer w)
              = Inr (JList (filter (forkIncluded gd repoData lifespan enableNewer now) forks), JList forks)"
    if "\<forall>i. clock i = now"
    using a that filter_zip_fst [of "[clock_reads w..<clock_reads w + length forks]" forks
        "forkIncluded gd repoData lifespan enableNewer now"]
    by simp
  have d: "forkIncluded gd repoData lifespan enableNewer now fork
              = ((now < p + lifespan * 604800000000 \<and> sourcePushedAt < p)
                 \<or> (now < p + lifespan * 604800000000 \<and> \<not> enableNewer))"
    if "pushedAt gd fork = Inr p" for fork p
    using that assms(3) by (simp add: forkIncluded_def spec_include_def spec_isAlive_def Let_def)
  show ?thesis using a c d by (auto simp add: spec_include_def Let_def)
qed

text \<open>
  Three forks of a source pushed on 2024-01-01, seen on 2024-03-01 with a lifespan of 12
  weeks: the first is alive and newer, the second is stale, the third is alive but not
  newer than the source. With \<open>enableNewer\<close> only the first is returned, without it the
  first and the third are; the stale fork is returned in neither case.
\<close>

theorem getListOfAliveForks_asymmetric_filter_witness:
  "py_getitem sampleSource ''full_name'' = Inr (JStr ''octocat/hello'')
   \<and> getListOfRepos forksService ''octocat/hello'' ''forks'' freshWorld
       = (Inr (JList [sampleForkA, sampleForkB, sampleForkC]),
          \<lparr>logged = [], requested = [''https://api.github.com/repos/octocat/hello/forks?per_page=100''],
           clock_reads = 0, ledger_file = None\<rparr>)
   \<and> pushedAt sampleDatetime sampleSource = Inr 63839664000000000
   \<and> timedelta_weeks 12 = Inr 7257600000000
   \<and> getListOfAliveForks sampleDatetime (\<lambda>i. 63844848000000000) forksService sampleSource 12 True freshWorld
       = (Inr (JList [sampleForkA], JList [sampleForkA, sampleForkB, sampleForkC]),
          \<lparr>logged = [], requested = [''https://api.github.com/repos/octocat/hello/forks?per_page=100''],
           clock_reads = 3, ledger_file = None\<rparr>)
   \<and> fst (getListOfAliveForks sampleDatetime (\<lambda>i. 63844848000000000) forksService sampleSource 12 False freshWorld)
       = Inr (JList [sampleForkA, sampleForkC], JList [sampleForkA, sampleForkB, sampleForkC])"
proof -
  let ?w1 = "\<lparr>logged = [], requested = [''https://api.github.com/repos/octocat/hello/forks?per_page=100''],
           clock_reads = 0, ledger_file = None\<rparr>"
  have n: "py_getitem sampleSource ''full_name'' = Inr (JStr ''octocat/hello'')"
    by (simp add: sampleSource_def)
  have l: "getListOfRepos forksService ''octocat/hello'' ''forks'' freshWorld
       = (Inr (JList [sampleForkA, sampleForkB, sampleForkC]), ?w1)"
    by code_simp
  have s: "pushedAt sampleDatetime sampleSource = Inr 63839664000000000" by code_simp
  have t: "timedelta_weeks 12 = Inr 7257600000000" by code_simp
  have pa: "pushedAt sampleDatetime sampleForkA = Inr 63842342400000000" by code_simp
  have pb: "pushedAt sampleDatetime sampleForkB = Inr 63821174400000000" by code_simp
  have pc: "pushedAt sampleDatetime sampleForkC = Inr 63839059200000000" by code_simp
  have f: "\<forall>fork\<in>set [sampleForkA, sampleForkB, sampleForkC].
             \<exists>p. pushedAt sampleDatetime fork = Inr p \<and> 0 \<le> p + 7257600000000
                 \<and> p + 7257600000000 \<le> datetime_max"
    using pa pb pc by (simp add: datetime_max_def)
  have z: "zip [sampleForkA, sampleForkB, sampleForkC] [clock_reads freshWorld..<clock_reads freshWorld + 3]
             = [(sampleForkA, 0), (sampleForkB, 1), (sampleForkC, 2)]"
    by code_simp
  have ia: "forkIncluded sampleDatetime sampleSource 12 True 63844848000000000 sampleForkA" by code_simp
  have ib: "\<not> forkIncluded sampleDatetime sampleSource 12 True 63844848000000000 sampleForkB" by code_simp
  have ic: "\<not> forkIncluded sampleDatetime sampleSource 12 True 63844848000000000 sampleForkC" by code_simp
  have ja: "forkIncluded sampleDatetime sampleSource 12 False 63844848000000000 sampleForkA" by code_simp
  have jb: "\<not> forkIncluded sampleDatetime sampleSource 12 False 63844848000000000 sampleForkB" by code_simp
  have jc: "forkIncluded sampleDatetime sampleSource 12 False 63844848000000000 sampleForkC" by code_simp
  have cw: "clock_reads freshWorld = 0" by (simp add: freshWorld_def)
  from getListOfAliveForks_asymmetric_filter [OF n l s t f,
      of "\<lambda>i. 63844848000000000" True 63844848000000000]
  have a: "getListOfAliveForks sampleDatetime (\<lambda>i. 63844848000000000) forksService sampleSource 12 True freshWorld
       = (Inr (JList [sampleForkA], JList [sampleForkA, sampleForkB, sampleForkC]),
          \<lparr>logged = [], requested = [''https://api.github.com/repos/octocat/hello/forks?per_page=100''],
           clock_reads = 3, ledger_file = None\<rparr>)"
    using z ia ib ic cw by simp
  from getListOfAliveForks_asymmetric_filter [OF n l s t f,
      of "\<lambda>i. 63844848000000000" False 63844848000000000]
  have b: "fst (getListOfAliveForks sampleDatetime (\<lambda>i. 63844848000000000) forksService sampleSource 12 False freshWorld)
       = Inr (JList [sampleForkA, sampleForkC], JList [sampleForkA, sampleForkB, sampleForkC])"
    using ja jb jc by simp
  show ?thesis using n l s t a b by blast
qed

subsection \<open>The traffic ledger\<close>

text \<open>
  Claim C2, as the code has it. A merge into a ledger in which the series of the pair is
  missing, or is a stored list that is not empty and whose last timestamp parses, with
  fresh samples that each have a timestamp that parses and a count of uniques: the merge
  returns, and the series it stores is the spec's merge of the fresh samples into the
  series it started from, each fresh sample appended iff its time is strictly greater than
  the time of the then last stored one, in the order given. A missing series starts from
  the single seed sample, whose timestamp is the fixed date 2000-01-01T00:00:00Z and whose
  count is 0.
\<close>

theorem mergeDataWithJson_appends_strictly_newer:
  assumes "entryMissing (ledger_file w) repoName trafficType \<and> stored = [seedSample]
            \<or> ledger_entry (ledger_file w) repoName trafficType = Some (JList stored) \<and> stored \<noteq> []"
    and "stamp gd (last stored) = Inr lastTime"
    and "fst (getRepoTraffic srv repoName trafficType w) = Inr traffic"
    and "py_getitem traffic trafficType = Inr (JList freshSamples)"
    and "\<forall>day\<in>set freshSamples. freshOk gd day"
  shows "fst (mergeDataWithJson gd srv repoName trafficType w) = Inr ()
       \<and> ledger_entry (ledger_file (snd (mergeDataWithJson gd srv repoName trafficType w))) repoName trafficType
           = Some (JList (spec_mergeTraffic (timeOf gd) stored (map storedSample freshSamples)))
       \<and> seedSample = JDict [(''timestamp'', JStr ''2000-01-01T00:00:00Z''), (''uniques'', JInt 0)]"
  using merge_spec [OF assms] by (simp add: seedSample_def)

text \<open>
  A first merge of two days given in descending order: the seed is stored, the later day
  is appended after it, and the earlier day, which is not newer than the then last stored
  one, is not.
\<close>

theorem mergeDataWithJson_appends_strictly_newer_witness:
  "entryMissing (ledger_file freshWorld) ''octocat/hello'' ''views''
   \<and> stamp sampleDatetime (last [seedSample]) = Inr 63082281600000000
   \<and> freshOk sampleDatetime (daySample ''2024-01-02T00:00:00Z'' 13 5)
   \<and> freshOk sampleDatetime (daySample ''2024-01-01T00:00:00Z'' 7 3)
   \<and> fst (mergeDataWithJson sampleDatetime
            (trafficService ''views'' [daySample ''2024-01-02T00:00:00Z'' 13 5, daySample ''2024-01-01T00:00:00Z'' 7 3])
            ''octocat/hello'' ''views'' freshWorld) = Inr ()
   \<and> ledger_entry (ledger_file (snd (mergeDataWithJson sampleDatetime
            (trafficService ''views'' [daySample ''2024-01-02T00:00:00Z'' 13 5, daySample ''2024-01-01T00:00:00Z'' 7 3])
            ''octocat/hello'' ''views'' freshWorld))) ''octocat/hello'' ''views''
       = Some (JList [seedSample, JDict [(''timestamp'', JStr ''2024-01-02T00:00:00Z''), (''uniques'', JInt 5)]])"
proof -
  let ?days = "[daySample ''2024-01-02T00:00:00Z'' 13 5, daySample ''2024-01-01T00:00:00Z'' 7 3]"
  let ?traffic = "JDict [(''count'', JInt 20), (''uniques'', JInt 8), (''views'', JList ?days)]"
  have m: "entryMissing (ledger_file freshWorld) ''octocat/hello'' ''views''"
    by (simp add: entryMissing_def freshWorld_def)
  have l: "stamp sampleDatetime (last [seedSample]) = Inr 63082281600000000"
    by (simp add: stamp_def seedSample_def sampleDatetime_def)
  have t: "fst (getRepoTraffic (trafficService ''views'' ?days) ''octocat/hello'' ''views'' freshWorld)
             = Inr ?traffic"
    by code_simp
  have g: "py_getitem ?traffic ''views'' = Inr (JList ?days)" by simp
  have f1: "freshOk sampleDatetime (daySample ''2024-01-02T00:00:00Z'' 13 5)" by code_simp
  have f2: "freshOk sampleDatetime (daySample ''2024-01-01T00:00:00Z'' 7 3)" by code_simp
  have f: "\<forall>day\<in>set ?days. freshOk sampleDatetime day" using f1 f2 by simp
  have s: "spec_mergeTraffic (timeOf sampleDatetime) [seedSample] (map storedSample ?days)
             = [seedSample, JDict [(''timestamp'', JStr ''2024-01-02T00:00:00Z''), (''uniques'', JInt 5)]]"
    by code_simp
  from mergeDataWithJson_appends_strictly_newer [of freshWorld "''octocat/hello''" "''views''"
      "[seedSample]" sampleDatetime 63082281600000000 "trafficService ''views'' ?days" ?traffic ?days,
      OF _ l t g f] m
  have c: "fst (mergeDataWithJson sampleDatetime (trafficService ''views'' ?days)
                  ''octocat/hello'' ''views'' freshWorld) = Inr ()
         \<and> ledger_entry (ledger_file (snd (mergeDataWithJson sampleDatetime (trafficService ''views'' ?days)
                  ''octocat/hello'' ''views'' freshWorld))) ''octocat/hello'' ''views''
             = Some (JList (spec_mergeTraffic (timeOf sampleDatetime) [seedSample] (map storedSample ?days)))"
    by blast
  show ?thesis using c [unfolded s] m l f1 f2 by blast
qed

text \<open>
  The seed is not at the least timestamp there is: 1999-12-31T00:00:00Z parses to an
  earlier instant, and a first merge of a sample of that day stores the seed alone.
\<close>

theorem mergeDataWithJson_seed_not_minimal:
  "sampleDatetime (JStr ''1999-12-31T00:00:00Z'') = Inr 63082195200000000
   \<and> stamp sampleDatetime seedSample = Inr 63082281600000000
   \<and> mergeDataWithJson sampleDatetime (trafficService ''views'' [daySample ''1999-12-31T00:00:00Z'' 9 5])
        ''octocat/hello'' ''views'' freshWorld
      = (Inr (),
         \<lparr>logged = [(Text ''userReposTraffic.json does not exist - creating'', Some ''warning''),
                    (Text ''octocat/hello does not exist - creating'', Some ''warning''),
                    (Text ''views does not exist - creating'', Some ''warning'')],
          requested = [''https://api.github.com/repos/octocat/hello/traffic/views''],
          clock_reads = 0,
          ledger_file = Some (JDict [(''octocat/hello'', JDict [(''views'', JList [seedSample])])])\<rparr>)"
  by code_simp

text \<open>
  Claim C3. If every series in the ledger is in strictly ascending order of time, then so
  is every series after any number of merges; and every series stored before is still
  there afterwards, unchanged or with samples appended behind it, in strictly ascending
  order as a whole (so every appended sample is strictly newer than all that were stored)
  and with no timestamp twice. A ledger that does not exist yet is in that order.
\<close>

theorem merges_keep_ascending:
  assumes "ledgerAscending gd (ledger_file w)"
  shows "ledgerAscending gd (ledger_file (runMerges gd merges w))
       \<and> (\<forall>repo kind xs. ledger_entry (ledger_file w) repo kind = Some (JList xs) \<longrightarrow>
            (\<exists>ys. ledger_entry (ledger_file (runMerges gd merges w)) repo kind = Some (JList (xs @ ys))
                  \<and> ascending gd (xs @ ys) \<and> distinct (map (stamp gd) (xs @ ys))))
       \<and> ledgerAscending gd None"
proof -
  from runMerges_ascending [OF assms, of merges]
  have a: "ledgerAscending gd (ledger_file (runMerges gd merges w))"
    and b: "\<forall>r k xs. ledger_entry (ledger_file w) r k = Some (JList xs)
            \<longrightarrow> (\<exists>ys. ledger_entry (ledger_file (runMerges gd merges w)) r k = Some (JList (xs @ ys)))"
    by blast+
  have "\<exists>ys. ledger_entry (ledger_file (runMerges gd merges w)) repo kind = Some (JList (xs @ ys))
                  \<and> ascending gd (xs @ ys) \<and> distinct (map (stamp gd) (xs @ ys))"
    if "ledger_entry (ledger_file w) repo kind = Some (JList xs)" for repo kind xs
  proof -
    from b that obtain ys where
      e: "ledger_entry (ledger_file (runMerges gd merges w)) repo kind = Some (JList (xs @ ys))"
      by blast
    from ledger_entry_ascending [OF a e] have "ascending gd (xs @ ys)"
      by (simp add: seriesAscending_def)
    with e ascending_distinct show ?thesis by blast
  qed
  then show ?thesis using a by (simp add: ledgerAscending_def)
qed

text \<open>
  Two merges of overlapping days into a ledger of two repositories: the series of the pair
  grows from the seed to the seed and the three days, each day once.
\<close>

theorem merges_keep_ascending_witness:
  "ledgerAscending sampleDatetime (ledger_file (freshWorld\<lparr>ledger_file := Some sampleLedger\<rparr>))
   \<and> ledgerAscending sampleDatetime
        (ledger_file (runMerges sampleDatetime
           [(trafficService ''views'' [daySample ''2024-01-01T00:00:00Z'' 7 3, daySample ''2024-01-02T00:00:00Z'' 13 5],
             ''octocat/hello'', ''views''),
            (trafficService ''views'' [daySample ''2024-01-02T00:00:00Z'' 13 5, daySample ''2024-01-03T00:00:00Z'' 4 2],
             ''octocat/hello'', ''views'')]
           (freshWorld\<lparr>ledger_file := Some sampleLedger\<rparr>)))
   \<and> ledger_entry (ledger_file (runMerges sampleDatetime
           [(trafficService ''views'' [daySample ''2024-01-01T00:00:00Z'' 7 3, daySample ''2024-01-02T00:00:00Z'' 13 5],
             ''octocat/hello'', ''views''),
            (trafficService ''views'' [daySample ''2024-01-02T00:00:00Z'' 13 5, daySample ''2024-01-03T00:00:00Z'' 4 2],
             ''octocat/hello'', ''views'')]
           (freshWorld\<lparr>ledger_file := Some sampleLedger\<rparr>))) ''octocat/hello'' ''views''
       = Some (JList [seedSample,
                      JDict [(''timestamp'', JStr ''2024-01-01T00:00:00Z''), (''uniques'', JInt 3)],
                      JDict [(''timestamp'', JStr ''2024-01-02T00:00:00Z''), (''uniques'', JInt 5)],
                      JDict [(''timestamp'', JStr ''2024-01-03T00:00:00Z''), (''uniques'', JInt 2)]])"
proof -
  have h: "ledgerAscending sampleDatetime (ledger_file (freshWorld\<lparr>ledger_file := Some sampleLedger\<rparr>))"
    by code_simp
  have e: "ledger_entry (ledger_file (runMerges sampleDatetime
           [(trafficService ''views'' [daySample ''2024-01-01T00:00:00Z'' 7 3, daySample ''2024-01-02T00:00:00Z'' 13 5],
             ''octocat/hello'', ''views''),
            (trafficService ''views'' [daySample ''2024-01-02T00:00:00Z'' 13 5, daySample ''2024-01-03T00:00:00Z'' 4 2],
             ''octocat/hello'', ''views'')]
           (freshWorld\<lparr>ledger_file := Some sampleLedger\<rparr>))) ''octocat/hello'' ''views''
       = Some (JList [seedSample,
                      JDict [(''timestamp'', JStr ''2024-01-01T00:00:00Z''), (''uniques'', JInt 3)],
                      JDict [(''timestamp'', JStr ''2024-01-02T00:00:00Z''), (''uniques'', JInt 5)],
                      JDict [(''timestamp'', JStr ''2024-01-03T00:00:00Z''), (''uniques'', JInt 2)]])"
    by code_simp
  from merges_keep_ascending [OF h] h e show ?thesis by blast
qed

text \<open>
  Claim C4. Merging the same answer of the service a second time leaves the file exactly
  as the first merge left it, whatever the ledger and the fresh samples are.
\<close>

theorem mergeDataWithJson_idempotent:
  "ledger_file (snd (mergeDataWithJson gd srv repoName trafficType
                      (snd (mergeDataWithJson gd srv repoName trafficType w))))
     = ledger_file (snd (mergeDataWithJson gd srv repoName trafficType w))"
  by (rule merge_idem)

text \<open>Two merges of the same two days into a new ledger: the seed and the two days, once each.\<close>

theorem mergeDataWithJson_idempotent_witness:
  "ledger_file (snd (mergeDataWithJson sampleDatetime
        (trafficService ''views'' [daySample ''2024-01-01T00:00:00Z'' 7 3, daySample ''2024-01-02T00:00:00Z'' 13 5])
        ''octocat/hello'' ''views''
        (snd (mergeDataWithJson sampleDatetime
           (trafficService ''views'' [daySample ''2024-01-01T00:00:00Z'' 7 3, daySample ''2024-01-02T00:00:00Z'' 13 5])
           ''octocat/hello'' ''views'' freshWorld))))
     = Some (JDict [(''octocat/hello'', JDict [(''views'',
          JList [seedSample,
                 JDict [(''timestamp'', JStr ''2024-01-01T00:00:00Z''), (''uniques'', JInt 3)],
                 JDict [(''timestamp'', JStr ''2024-01-02T00:00:00Z''), (''uniques'', JInt 5)]])])])"
proof -
  have "ledger_file (snd (mergeDataWithJson sampleDatetime
           (trafficService ''views'' [daySample ''2024-01-01T00:00:00Z'' 7 3, daySample ''2024-01-02T00:00:00Z'' 13 5])
           ''octocat/hello'' ''views'' freshWorld))
     = Some (JDict [(''octocat/hello'', JDict [(''views'',
          JList [seedSample,
                 JDict [(''timestamp'', JStr ''2024-01-01T00:00:00Z''), (''uniques'', JInt 3)],
                 JDict [(''timestamp'', JStr ''2024-01-02T00:00:00Z''), (''uniques'', JInt 5)]])])])"
    by code_simp
  then show ?thesis
    using mergeDataWithJson_idempotent [of sampleDatetime
        "trafficService ''views'' [daySample ''2024-01-01T00:00:00Z'' 7 3, daySample ''2024-01-02T00:00:00Z'' 13 5]"
        "''octocat/hello''" "''views''" freshWorld]
    by simp
qed

text \<open>
  Claim C5. \<^verbatim>\<open>getJsonData\<close> returns the sum of the \<^verbatim>\<open>uniques\<close> of all samples stored for
  the pair, when these are integers. After a merge of two samples with 3 and 5 uniques,
  the first later than 2000-01-01T00:00:00Z and the second later than the first, into a
  ledger in which the series is missing, it returns 8.
\<close>

theorem getJsonData_sums_uniques:
  "(ledger_entry (ledger_file w) repoName trafficType = Some (JList samples) \<longrightarrow>
    map (\<lambda>s. py_getitem s ''uniques'') samples = map (\<lambda>u. Inr (JInt u)) us \<longrightarrow>
    getJsonData repoName trafficType w = Inr (sum_list us))
   \<and> (entryMissing (ledger_file w) repoName trafficType \<longrightarrow>
      fst (getRepoTraffic srv repoName trafficType w) = Inr traffic \<longrightarrow>
      py_getitem traffic trafficType
        = Inr (JList [JDict [(''timestamp'', t1), (''uniques'', JInt 3)],
                      JDict [(''timestamp'', t2), (''uniques'', JInt 5)]]) \<longrightarrow>
      stamp gd seedSample = Inr a0 \<longrightarrow> gd t1 = Inr a1 \<longrightarrow> gd t2 = Inr a2 \<longrightarrow> a0 < a1 \<longrightarrow> a1 < a2 \<longrightarrow>
      getJsonData repoName trafficType (snd (mergeDataWithJson gd srv repoName trafficType w)) = Inr 8)"
proof (intro conjI impI)
  assume "ledger_entry (ledger_file w) repoName trafficType = Some (JList samples)"
    and "map (\<lambda>s. py_getitem s ''uniques'') samples = map (\<lambda>u. Inr (JInt u)) us"
  then show "getJsonData repoName trafficType w = Inr (sum_list us)"
    by (rule getJsonData_sum_list)
next
  let ?d1 = "JDict [(''timestamp'', t1), (''uniques'', JInt 3)]"
  let ?d2 = "JDict [(''timestamp'', t2), (''uniques'', JInt 5)]"
  let ?w' = "snd (mergeDataWithJson gd srv repoName trafficType w)"
  assume m: "entryMissing (ledger_file w) repoName trafficType"
    and t: "fst (getRepoTraffic srv repoName trafficType w) = Inr traffic"
    and g: "py_getitem traffic trafficType = Inr (JList [?d1, ?d2])"
    and a: "stamp gd seedSample = Inr a0" "gd t1 = Inr a1" "gd t2 = Inr a2" "a0 < a1" "a1 < a2"
  have l: "stamp gd (last [seedSample]) = Inr a0" using a(1) by simp
  have f: "\<forall>day\<in>set [?d1, ?d2]. freshOk gd day"
    using a by (simp add: freshOk_def stamp_def)
  have s: "spec_mergeTraffic (timeOf gd) [seedSample] (map storedSample [?d1, ?d2])
             = [seedSample, ?d1, ?d2]"
    using a by (simp add: timeOf_def stamp_def storedSample_def seedSample_def)
  from merge_spec [of w repoName trafficType "[seedSample]" gd a0 srv traffic "[?d1, ?d2]", OF _ l t g f] m
  have e: "ledger_entry (ledger_file ?w') repoName trafficType = Some (JList [seedSample, ?d1, ?d2])"
    unfolding s by blast
  have u: "map (\<lambda>s. py_getitem s ''uniques'') [seedSample, ?d1, ?d2] = map (\<lambda>u. Inr (JInt u)) [0, 3, 5]"
    by (simp add: seedSample_def)
  from getJsonData_sum_list [OF e u]
  show "getJsonData repoName trafficType ?w' = Inr 8" by simp
qed

text \<open>The sum 0 + 4 over a stored series, and the sum 8 after a first merge of 3 and 5.\<close>

theorem getJsonData_sums_uniques_witness:
  "ledger_entry (ledger_file (freshWorld\<lparr>ledger_file := Some sampleLedger\<rparr>)) ''octocat/hello'' ''clones''
     = Some (JList [seedSample, JDict [(''timestamp'', JStr ''2024-01-01T00:00:00Z''), (''uniques'', JInt 4)]])
   \<and> getJsonData ''octocat/hello'' ''clones'' (freshWorld\<lparr>ledger_file := Some sampleLedger\<rparr>) = Inr (sum_list [0, 4])
   \<and> entryMissing (ledger_file freshWorld) ''octocat/hello'' ''views''
   \<and> getJsonData ''octocat/hello'' ''views''
        (snd (mergeDataWithJson sampleDatetime
           (\<lambda>url. Inr (answer (JDict [(''views'',
               JList [JDict [(''timestamp'', JStr ''2024-01-01T00:00:00Z''), (''uniques'', JInt 3)],
                      JDict [(''timestamp'', JStr ''2024-01-02T00:00:00Z''), (''uniques'', JInt 5)]])]) None))
           ''octocat/hello'' ''views'' freshWorld)) = Inr 8"
proof -
  let ?srv = "\<lambda>url::string. Inr (answer (JDict [(''views'',
               JList [JDict [(''timestamp'', JStr ''2024-01-01T00:00:00Z''), (''uniques'', JInt 3)],
                      JDict [(''timestamp'', JStr ''2024-01-02T00:00:00Z''), (''uniques'', JInt 5)]])]) None) :: error + response"
  let ?w = "freshWorld\<lparr>ledger_file := Some sampleLedger\<rparr>"
  have e: "ledger_entry (ledger_file ?w) ''octocat/hello'' ''clones''
     = Some (JList [seedSample, JDict [(''timestamp'', JStr ''2024-01-01T00:00:00Z''), (''uniques'', JInt 4)]])"
    by code_simp
  have u: "map (\<lambda>s. py_getitem s ''uniques'')
             [seedSample, JDict [(''timestamp'', JStr ''2024-01-01T00:00:00Z''), (''uniques'', JInt 4)]]
           = map (\<lambda>u. Inr (JInt u)) [0, 4]"
    by (simp add: seedSample_def)
  have m: "entryMissing (ledger_file freshWorld) ''octocat/hello'' ''views''"
    by (simp add: entryMissing_def freshWorld_def)
  have t: "fst (getRepoTraffic ?srv ''octocat/hello'' ''views'' freshWorld)
     = Inr (JDict [(''views'',
               JList [JDict [(''timestamp'', JStr ''2024-01-01T00:00:00Z''), (''uniques'', JInt 3)],
                      JDict [(''timestamp'', JStr ''2024-01-02T00:00:00Z''), (''uniques'', JInt 5)]])])"
    by code_simp
  have a: "stamp sampleDatetime seedSample = Inr 63082281600000000"
    "sampleDatetime (JStr ''2024-01-01T00:00:00Z'') = Inr 63839664000000000"
    "sampleDatetime (JStr ''2024-01-02T00:00:00Z'') = Inr 63839750400000000"
    by (simp_all add: stamp_def seedSample_def sampleDatetime_def)
  have first: "getJsonData ''octocat/hello'' ''clones'' ?w = Inr (sum_list [0, 4])"
    using getJsonData_sums_uniques [of ?w "''octocat/hello''" "''clones''"
        "[seedSample, JDict [(''timestamp'', JStr ''2024-01-01T00:00:00Z''), (''uniques'', JInt 4)]]" "[0, 4]"]
      e u by blast
  have second: "getJsonData ''octocat/hello'' ''views''
        (snd (mergeDataWithJson sampleDatetime ?srv ''octocat/hello'' ''views'' freshWorld)) = Inr 8"
    using getJsonData_sums_uniques [of freshWorld "''octocat/hello''" "''views''" _ _ ?srv _
        "JStr ''2024-01-01T00:00:00Z''" "JStr ''2024-01-02T00:00:00Z''" sampleDatetime
        63082281600000000 63839664000000000 63839750400000000]
      m t a by simp
  show ?thesis using e first m second by blast
qed

subsection \<open>Scoring and ranking\<close>

text \<open>
  Claim C6. The score of a repository is its number of alive forks times 8, plus its stars
  times 4, plus its clones times 2, plus its views times 1: this is the first component of
  the tuple the program keeps for the repository. With two alive forks, 10 stars, 4 clones
  and 1 view the score is 65.
\<close>

theorem score_weighted_sum:
  "fst (scoreEntryOf isArchived repositoryName aliveForks stars clones views)
     = int (length aliveForks) * 8 + stars * 4 + clones * 2 + views * 1
   \<and> (length aliveForks = 2 \<longrightarrow> score aliveForks 10 4 1 = 65)"
  by (simp add: scoreEntryOf_def score_def)

text \<open>The score of a repository with two alive forks, 10 stars, 4 clones and 1 view.\<close>

theorem score_weighted_sum_witness:
  "fst (scoreEntryOf False ''octocat/hello'' [JNull, JNull] 10 4 1) = 2 * 8 + 10 * 4 + 4 * 2 + 1 * 1
   \<and> length [JNull, JNull] = 2 \<and> score [JNull, JNull] 10 4 1 = 65"
  using score_weighted_sum [of False "''octocat/hello''" "[JNull, JNull]" 10 4 1] by simp

text \<open>
  Claim C7. The ranking is a stable sort by score, the first component of an entry,
  highest first: the ranked list is in non-increasing order of score, it holds the same
  entries as the input (each one whole, so with its counts), the entries of any one score
  are in the order they came in, and the scores of the ranked list are the scores of the
  input in descending order.
\<close>

theorem sortedRepos_stable_descending:
  "sorted_wrt (\<lambda>a b. fst a \<ge> fst b) (sortedRepos sortRepos)
   \<and> mset (sortedRepos sortRepos) = mset sortRepos
   \<and> (\<forall>k. filter (\<lambda>e. fst e = k) (sortedRepos sortRepos) = filter (\<lambda>e. fst e = k) sortRepos)
   \<and> map fst (sortedRepos sortRepos) = rev (sort (map fst sortRepos))"
proof -
  let ?ys = "sort_key fst (rev sortRepos)"
  have k: "getKey = fst" by (rule ext) (simp add: getKey_def)
  have r: "sortedRepos sortRepos = rev ?ys"
    by (simp add: sortedRepos_def py_sorted_def k)
  have s: "sorted (map fst ?ys)" by simp
  then have "sorted_wrt (\<lambda>a b. fst a \<le> fst b) ?ys"
    by (simp add: sorted_wrt_map)
  then have a: "sorted_wrt (\<lambda>a b. fst b \<le> fst a) (rev ?ys)"
    by (simp add: sorted_wrt_rev)
  have b: "mset (rev ?ys) = mset sortRepos" by simp
  have c: "filter (\<lambda>e. fst e = k) (rev ?ys) = filter (\<lambda>e. fst e = k) sortRepos" for k
    by (simp add: rev_filter [symmetric] sort_key_stable)
  have "mset (map fst ?ys) = mset (map fst sortRepos)" by simp
  with s have "sort (map fst sortRepos) = map fst ?ys"
    by (intro properties_for_sort) simp_all
  then have d: "map fst (rev ?ys) = rev (sort (map fst sortRepos))"
    by (simp add: rev_map)
  show ?thesis unfolding r using a b c d by simp
qed

text \<open>
  Four repositories, two with the score 50 and two with the score 9: the two of score 50
  come first, and within each score the order is the one they came in.
\<close>

theorem sortedRepos_stable_descending_witness:
  "sortedRepos [scoreEntryOf False ''octocat/a'' [] 2 0 1,
                scoreEntryOf False ''octocat/b'' [JNull] 10 1 0,
                scoreEntryOf True ''octocat/c'' [] 0 4 1,
                scoreEntryOf False ''octocat/d'' [JNull, JNull] 8 1 0]
     = [(50, ''octocat/b'', 1, 10, 1, 0),
        (50, ''octocat/d'', 2, 8, 1, 0),
        (9, ''octocat/a'', 0, 2, 0, 1),
        (9, archivedTag @ ''octocat/c'', 0, 0, 4, 1)]
   \<and> map fst (sortedRepos [scoreEntryOf False ''octocat/a'' [] 2 0 1,
                scoreEntryOf False ''octocat/b'' [JNull] 10 1 0,
                scoreEntryOf True ''octocat/c'' [] 0 4 1,
                scoreEntryOf False ''octocat/d'' [JNull, JNull] 8 1 0]) = [50, 50, 9, 9]"
proof -
  let ?xs = "[scoreEntryOf False ''octocat/a'' [] 2 0 1,
                scoreEntryOf False ''octocat/b'' [JNull] 10 1 0,
                scoreEntryOf True ''octocat/c'' [] 0 4 1,
                scoreEntryOf False ''octocat/d'' [JNull, JNull] 8 1 0]"
  have e: "sortedRepos ?xs
     = [(50, ''octocat/b'', 1, 10, 1, 0),
        (50, ''octocat/d'', 2, 8, 1, 0),
        (9, ''octocat/a'', 0, 2, 0, 1),
        (9, archivedTag @ ''octocat/c'', 0, 0, 4, 1)]"
    by code_simp
  have m: "rev (sort (map fst ?xs)) = [50, 50, 9, 9]" by code_simp
  from sortedRepos_stable_descending [of ?xs] have "map fst (sortedRepos ?xs) = rev (sort (map fst ?xs))"
    by blast
  with e m show ?thesis by simp
qed

subsection \<open>Requests\<close>



text \<open>
  Claim C9. A request answered with \<^verbatim>\<open>X-RateLimit-Remaining: 0\<close> and
  \<^verbatim>\<open>X-RateLimit-Reset: 1700000000\<close>: the call raises TypeError where it builds the message
  from the reset time, so nothing is printed and the decoded body is not returned.
\<close>

theorem getGithubApiRequest_rate_limit_zero_raises:
  "getGithubApiRequest
     (\<lambda>url. Inr \<lparr>rate_remaining = Some ''0'', rate_reset = Some ''1700000000'',
                 body = Some (JDict [(''message'', JStr ''API rate limit exceeded'')]),
                 last_url = None\<rparr>)
     ''users/octocat'' True
     \<lparr>logged = [], requested = [], clock_reads = 0, ledger_file = None\<rparr>
   = (Inl TypeError,
      \<lparr>logged = [], requested = [''https://api.github.com/users/octocat''], clock_reads = 0,
       ledger_file = None\<rparr>)"
  by (simp add: getGithubApiRequest_def rateLimitNotice_def time_ctime_str_def py_int_zero)

subsection \<open>What a merge leaves alone\<close>

text \<open>
  Claim C10. A merge for one repository and traffic type leaves the entry of every other
  repository as it was, with all its series, and leaves the series of every other traffic
  type of the same repository as it was.
\<close>

theorem mergeDataWithJson_frame:
  "(repo \<noteq> repoName \<longrightarrow>
      ledger_repo (ledger_file (snd (mergeDataWithJson gd srv repoName trafficType w))) repo
        = ledger_repo (ledger_file w) repo
    \<and> ledger_entry (ledger_file (snd (mergeDataWithJson gd srv repoName trafficType w))) repo kind
        = ledger_entry (ledger_file w) repo kind)
   \<and> (kind \<noteq> trafficType \<longrightarrow>
      ledger_entry (ledger_file (snd (mergeDataWithJson gd srv repoName trafficType w))) repoName kind
        = ledger_entry (ledger_file w) repoName kind)"
  using merge_frame_repo [of repo repoName gd srv trafficType w]
    merge_frame_kind [of kind trafficType gd srv repoName w]
  by (simp add: ledger_entry_def)

text \<open>
  A merge of the views of one repository into a ledger of two: the views of that
  repository grow, its clones and the other repository stay as they were.
\<close>

theorem mergeDataWithJson_frame_witness:
  "''octocat/other'' \<noteq> ''octocat/hello'' \<and> ''clones'' \<noteq> ''views''
   \<and> ledger_entry (ledger_file (snd (mergeDataWithJson sampleDatetime
        (trafficService ''views'' [daySample ''2024-01-01T00:00:00Z'' 7 3])
        ''octocat/hello'' ''views'' (freshWorld\<lparr>ledger_file := Some sampleLedger\<rparr>)))) ''octocat/hello'' ''views''
       = Some (JList [seedSample, JDict [(''timestamp'', JStr ''2024-01-01T00:00:00Z''), (''uniques'', JInt 3)]])
   \<and> ledger_repo (ledger_file (snd (mergeDataWithJson sampleDatetime
        (trafficService ''views'' [daySample ''2024-01-01T00:00:00Z'' 7 3])
        ''octocat/hello'' ''views'' (freshWorld\<lparr>ledger_file := Some sampleLedger\<rparr>)))) ''octocat/other''
       = Some (JDict [(''views'', JList [seedSample])])
   \<and> ledger_entry (ledger_file (snd (mergeDataWithJson sampleDatetime
        (trafficService ''views'' [daySample ''2024-01-01T00:00:00Z'' 7 3])
        ''octocat/hello'' ''views'' (freshWorld\<lparr>ledger_file := Some sampleLedger\<rparr>)))) ''octocat/hello'' ''clones''
       = Some (JList [seedSample, JDict [(''timestamp'', JStr ''2024-01-01T00:00:00Z''), (''uniques'', JInt 4)]])"
proof -
  let ?w = "freshWorld\<lparr>ledger_file := Some sampleLedger\<rparr>"
  let ?srv = "trafficService ''views'' [daySample ''2024-01-01T00:00:00Z'' 7 3]"
  have d: "''octocat/other'' \<noteq> ''octocat/hello''" "''clones'' \<noteq> ''views''" by simp_all
  have a: "ledger_repo (ledger_file ?w) ''octocat/other'' = Some (JDict [(''views'', JList [seedSample])])"
    by code_simp
  have b: "ledger_entry (ledger_file ?w) ''octocat/hello'' ''clones''
      = Some (JList [seedSample, JDict [(''timestamp'', JStr ''2024-01-01T00:00:00Z''), (''uniques'', JInt 4)]])"
    by code_simp
  have c: "ledger_entry (ledger_file (snd (mergeDataWithJson sampleDatetime ?srv
        ''octocat/hello'' ''views'' ?w))) ''octocat/hello'' ''views''
       = Some (JList [seedSample, JDict [(''timestamp'', JStr ''2024-01-01T00:00:00Z''), (''uniques'', JInt 3)]])"
    by code_simp
  from mergeDataWithJson_frame [of "''octocat/other''" "''octocat/hello''" sampleDatetime ?srv "''views''" ?w "''clones''"]
    d a b c
  show ?thesis by simp
qed

end
